theory Spec2Isabelle
  imports Main "HOL-Library.Sublist"
begin

section \<open>pympress.util: a shallow embedding\<close>

text \<open>
  The module \<^verbatim>\<open>pympress/util.py\<close> has three groups of functions: the resource
  resolver and icon loader, the screensaver controller \<^verbatim>\<open>set_screensaver\<close>, and the
  class \<^verbatim>\<open>FileWatcher\<close>. Each group is embedded below as functions over an explicit
  environment or state. Python strings are \<open>string\<close>; exceptions are values.
\<close>

subsection \<open>Python string and path primitives\<close>

text \<open>
  The functions of Python's \<^verbatim>\<open>str\<close> and of \<^verbatim>\<open>os.path\<close> that the module calls.
  \<^verbatim>\<open>os.path\<close> comes in two flavours: \<^verbatim>\<open>posixpath\<close> (separator \<^verbatim>\<open>/\<close>), given first,
  and \<^verbatim>\<open>ntpath\<close> (separator backslash, drives), which it is when \<^verbatim>\<open>os.name\<close> is
  \<^verbatim>\<open>'nt'\<close>, given after it.
\<close>

text \<open>\<^verbatim>\<open>p.rfind(c)\<close>: the index of the last \<open>c\<close> in \<open>p\<close>, or \<open>-1\<close>.\<close>

definition rfind :: "char \<Rightarrow> string \<Rightarrow> int" where
  "rfind c p = int (length (dropWhile (\<lambda>x. x \<noteq> c) (rev p))) - 1"

text \<open>\<^verbatim>\<open>s.rstrip(c)\<close>\<close>

definition rstrip :: "char \<Rightarrow> string \<Rightarrow> string" where
  "rstrip c s = rev (dropWhile (\<lambda>x. x = c) (rev s))"

text \<open>\<^verbatim>\<open>s.startswith('/')\<close> and \<^verbatim>\<open>s.endswith('/')\<close>\<close>

definition startswith_sep :: "string \<Rightarrow> bool" where
  "startswith_sep s = (case s of [] \<Rightarrow> False | c # _ \<Rightarrow> c = CHR ''/'')"

definition endswith_sep :: "string \<Rightarrow> bool" where
  "endswith_sep s = (s \<noteq> [] \<and> last s = CHR ''/'')"

text \<open>
  \<^verbatim>\<open>posixpath.dirname\<close>:
  \<^verbatim>\<open>i = p.rfind('/') + 1; head = p[:i]\<close>;
  \<^verbatim>\<open>if head and head != '/'*len(head): head = head.rstrip('/')\<close>.
\<close>

definition dirname :: "string \<Rightarrow> string" where
  "dirname p =
     (let i = rfind CHR ''/'' p + 1;
          head = take (nat i) p
      in if head \<noteq> [] \<and> head \<noteq> replicate (length head) CHR ''/''
         then rstrip CHR ''/'' head else head)"

text \<open>
  \<^verbatim>\<open>posixpath.join(a, *p)\<close>: for each further part \<open>b\<close>, an absolute \<open>b\<close> replaces the
  path, an empty path or one ending in the separator is extended by \<open>b\<close>, any other by
  the separator and \<open>b\<close>.
\<close>

definition join_step :: "string \<Rightarrow> string \<Rightarrow> string" where
  "join_step path b =
     (if startswith_sep b then b
      else if path = [] \<or> endswith_sep path then path @ b
      else path @ ''/'' @ b)"

definition join :: "string \<Rightarrow> string list \<Rightarrow> string" where
  "join a p = foldl join_step a p"

text \<open>\<^verbatim>\<open>sep.join(parts)\<close>\<close>

fun str_join :: "string \<Rightarrow> string list \<Rightarrow> string" where
  "str_join sep [] = []"
| "str_join sep [x] = x"
| "str_join sep (x # y # ys) = x @ sep @ str_join sep (y # ys)"

text \<open>\<^verbatim>\<open>s.split(c)\<close> for a one-character separator: never the empty list.\<close>

fun split :: "char \<Rightarrow> string \<Rightarrow> string list" where
  "split c [] = [[]]"
| "split c (x # xs) =
     (if x = c then [] # split c xs
      else (let r = split c xs in (x # hd r) # tl r))"

text \<open>\<^verbatim>\<open>s.lower()\<close>, on the ASCII letters.\<close>

definition lower_char :: "char \<Rightarrow> char" where
  "lower_char c =
     (let n = (of_char c :: nat) in if 65 \<le> n \<and> n \<le> 90 then char_of (n + 32) else c)"

definition lower :: "string \<Rightarrow> string" where
  "lower s = map lower_char s"

text \<open>
  \<^verbatim>\<open>posixpath.splitext\<close> (\<^verbatim>\<open>genericpath._splitext\<close> with \<^verbatim>\<open>sep = '/'\<close>,
  \<^verbatim>\<open>altsep = None\<close>, \<^verbatim>\<open>extsep = '.'\<close>): the extension starts at the last dot, when
  that dot comes after the last separator and after a character of the file name that
  is not a dot. The \<^verbatim>\<open>while\<close> loop skipping leading dots is \<open>splitext_loop\<close>.
\<close>

function splitext_loop :: "string \<Rightarrow> nat \<Rightarrow> nat \<Rightarrow> string \<times> string" where
  "splitext_loop p filenameIndex dotIndex =
     (if filenameIndex < dotIndex
      then (if take 1 (drop filenameIndex p) \<noteq> ''.''
            then (take dotIndex p, drop dotIndex p)
            else splitext_loop p (filenameIndex + 1) dotIndex)
      else (p, []))"
  by pat_completeness auto
termination
  by (relation "measure (\<lambda>(p, filenameIndex, dotIndex). dotIndex - filenameIndex)") auto

declare splitext_loop.simps [simp del]

definition splitext :: "string \<Rightarrow> string \<times> string" where
  "splitext p =
     (let sepIndex = rfind CHR ''/'' p;
          dotIndex = rfind CHR ''.'' p
      in if dotIndex > sepIndex
         then splitext_loop p (nat (sepIndex + 1)) (nat dotIndex)
         else (p, []))"

text \<open>\<^verbatim>\<open>s.upper()\<close>, on the ASCII letters.\<close>

definition upper_char :: "char \<Rightarrow> char" where
  "upper_char c =
     (let n = (of_char c :: nat) in if 97 \<le> n \<and> n \<le> 122 then char_of (n - 32) else c)"

definition upper :: "string \<Rightarrow> string" where
  "upper s = map upper_char s"

text \<open>
  \<^verbatim>\<open>s.find(c, start)\<close>: the index of the first \<open>c\<close> at or after \<open>start\<close>, \<open>None\<close> for
  Python's \<open>-1\<close>.
\<close>

fun find_char :: "char \<Rightarrow> string \<Rightarrow> nat option" where
  "find_char c [] = None"
| "find_char c (x # xs) = (if x = c then Some 0 else map_option Suc (find_char c xs))"

definition str_find :: "char \<Rightarrow> nat \<Rightarrow> string \<Rightarrow> nat option" where
  "str_find c start s = map_option (\<lambda>i. i + start) (find_char c (drop start s))"

subsection \<open>The Windows flavour of os.path\<close>

text \<open>
  \<^verbatim>\<open>ntpath\<close> as in CPython 3.11. Its separator is the backslash, \<open>bslash\<close>; a slash
  counts as a separator too (\<^verbatim>\<open>seps\<close>).
\<close>

definition bslash :: char where
  "bslash = CHR 0x5C"

definition nt_sep :: "char \<Rightarrow> bool" where
  "nt_sep c = (c = bslash \<or> c = CHR ''/'')"

text \<open>
  \<^verbatim>\<open>ntpath.splitdrive(p)\<close>: with \<^verbatim>\<open>normp = p.replace('/', '\\')\<close>, a path starting with
  two separators has a UNC or device drive, which ends before the second separator found
  from \<^verbatim>\<open>start\<close> on (the whole path is the drive when there are not two); a path with
  a colon second has the drive \<^verbatim>\<open>X:\<close>; any other has none.
\<close>

definition nt_splitdrive :: "string \<Rightarrow> string \<times> string" where
  "nt_splitdrive p =
     (if length p \<ge> 2 then
        (let normp = map (\<lambda>c. if c = CHR ''/'' then bslash else c) p
         in if take 2 normp = [bslash, bslash] then
              (let start = (if upper (take 8 normp)
                                 = [bslash, bslash, CHR ''?'', bslash] @ ''UNC'' @ [bslash]
                            then 8 else 2)
               in case str_find bslash start normp of
                    None \<Rightarrow> (p, [])
                  | Some index \<Rightarrow>
                      (case str_find bslash (index + 1) normp of
                         None \<Rightarrow> (p, [])
                       | Some index2 \<Rightarrow> (take index2 p, drop index2 p)))
            else if take 1 (drop 1 normp) = '':'' then (take 2 p, drop 2 p)
            else ([], p))
      else ([], p))"

text \<open>
  \<^verbatim>\<open>ntpath.join(path, *paths)\<close>. \<open>nt_with_sep\<close> is its
  \<^verbatim>\<open>if result_path and result_path[-1] not in seps: result_path = result_path + sep\<close>;
  \<open>nt_join_step\<close> is the body of its loop over \<^verbatim>\<open>paths\<close>, on the pair
  \<^verbatim>\<open>(result_drive, result_path)\<close>: an absolute part replaces the path (and the drive, if
  it has one or there was none), a part on another drive replaces both, any other part
  is appended.
\<close>

definition nt_with_sep :: "string \<Rightarrow> string" where
  "nt_with_sep result_path =
     (if result_path \<noteq> [] \<and> \<not> nt_sep (last result_path) then result_path @ [bslash]
      else result_path)"

definition nt_join_step :: "string \<times> string \<Rightarrow> string \<Rightarrow> string \<times> string" where
  "nt_join_step r p =
     (let (result_drive, result_path) = r;
          (p_drive, p_path) = nt_splitdrive p
      in if p_path \<noteq> [] \<and> nt_sep (hd p_path) then
           ((if p_drive \<noteq> [] \<or> result_drive = [] then p_drive else result_drive), p_path)
         else if p_drive \<noteq> [] \<and> p_drive \<noteq> result_drive then
           (if lower p_drive \<noteq> lower result_drive then (p_drive, p_path)
            else (p_drive, nt_with_sep result_path @ p_path))
         else (result_drive, nt_with_sep result_path @ p_path))"

definition nt_join :: "string \<Rightarrow> string list \<Rightarrow> string" where
  "nt_join path paths =
     (let (result_drive, result_path) = foldl nt_join_step (nt_splitdrive path) paths
      in if result_path \<noteq> [] \<and> \<not> nt_sep (hd result_path)
            \<and> result_drive \<noteq> [] \<and> last result_drive \<noteq> CHR '':''
         then result_drive @ [bslash] @ result_path
         else result_drive @ result_path)"

text \<open>
  \<^verbatim>\<open>ntpath.dirname(p)\<close>, the head of \<^verbatim>\<open>ntpath.split(p)\<close>: after the drive, the path up
  to its last separator, without trailing separators unless it consists of them.
\<close>

definition nt_dirname :: "string \<Rightarrow> string" where
  "nt_dirname p =
     (let (d, q) = nt_splitdrive p;
          head = rev (dropWhile (\<lambda>c. \<not> nt_sep c) (rev q));
          stripped = rev (dropWhile nt_sep (rev head))
      in d @ (if stripped \<noteq> [] then stripped else head))"

subsection \<open>Resource resolver and icon loading\<close>

text \<open>
  The exceptions (all subclasses of \<^verbatim>\<open>Exception\<close>) that the calls of the module can
  raise: \<^verbatim>\<open>pkg_resources.DistributionNotFound\<close>, \<^verbatim>\<open>OSError\<close> (from
  \<^verbatim>\<open>os.listdir\<close>, \<^verbatim>\<open>winreg\<close> and the observer), \<^verbatim>\<open>GLib.Error\<close> from
  \<^verbatim>\<open>GdkPixbuf.Pixbuf.new_from_file\<close>, \<^verbatim>\<open>AssertionError\<close> and \<^verbatim>\<open>AttributeError\<close>.
  The records written to the module's \<^verbatim>\<open>logger\<close> are \<open>log_record\<close>s.
\<close>

datatype exn = DistributionNotFound | OSError string | GLibError string
  | AssertionError | AttributeError string

datatype log_record = LogWarning string | LogException string exn

text \<open>
  What the resolver reads from its surroundings:
  \<^item> \<open>py_os_name\<close>: \<^verbatim>\<open>os.name\<close>, which decides the flavour of \<^verbatim>\<open>os.path\<close>;
  \<^item> \<open>frozen\<close>: \<^verbatim>\<open>getattr(sys, 'frozen', False)\<close>;
  \<^item> \<open>executable\<close>: \<^verbatim>\<open>sys.executable\<close>;
  \<^item> \<open>dist_location\<close>: the directory in which \<^verbatim>\<open>pkg_resources\<close> finds the
    distribution \<^verbatim>\<open>pympress\<close>, \<open>None\<close> when it is not installed;
  \<^item> \<open>os_listdir\<close>: \<^verbatim>\<open>os.listdir\<close>;
  \<^item> \<open>pixbuf_new_from_file\<close>: \<^verbatim>\<open>GdkPixbuf.Pixbuf.new_from_file\<close>, \<open>'p\<close> the pixbufs.
\<close>

record 'p pyenv =
  py_os_name :: string
  frozen :: bool
  executable :: string
  dist_location :: "string option"
  os_listdir :: "string \<Rightarrow> exn + string list"
  pixbuf_new_from_file :: "string \<Rightarrow> exn + 'p"

text \<open>\<^verbatim>\<open>os.path.join\<close> and \<^verbatim>\<open>os.path.dirname\<close> on the host.\<close>

definition os_path_join :: "'p pyenv \<Rightarrow> string \<Rightarrow> string list \<Rightarrow> string" where
  "os_path_join env a p = (if py_os_name env = ''nt'' then nt_join a p else join a p)"

definition os_path_dirname :: "'p pyenv \<Rightarrow> string \<Rightarrow> string" where
  "os_path_dirname env p = (if py_os_name env = ''nt'' then nt_dirname p else dirname p)"

text \<open>
  \<^verbatim>\<open>pkg_resources.resource_filename(req, name)\<close> and \<^verbatim>\<open>resource_listdir\<close> for a
  distribution installed in a directory (the library's file-system provider): the
  resource name is split at \<^verbatim>\<open>/\<close> and joined to the distribution's location with
  \<^verbatim>\<open>os.path.join\<close>; a distribution that is not found raises.
\<close>

definition resource_filename :: "'p pyenv \<Rightarrow> string \<Rightarrow> exn + string" where
  "resource_filename env resource_name =
     (case dist_location env of
        None \<Rightarrow> Inl DistributionNotFound
      | Some base \<Rightarrow>
          Inr (if resource_name \<noteq> []
               then os_path_join env base (split CHR ''/'' resource_name) else base))"

definition resource_listdir :: "'p pyenv \<Rightarrow> string \<Rightarrow> exn + string list" where
  "resource_listdir env resource_name =
     (case resource_filename env resource_name of
        Inl e \<Rightarrow> Inl e
      | Inr d \<Rightarrow> os_listdir env d)"

text \<open>\<^verbatim>\<open>__get_resource_path(*path_parts)\<close>\<close>

definition get_resource_path :: "'p pyenv \<Rightarrow> string list \<Rightarrow> exn + string" where
  "get_resource_path env path_parts =
     (if frozen env
      then Inr (os_path_join env (os_path_dirname env (executable env)) path_parts)
      else resource_filename env (str_join ''/'' (''pympress'' # path_parts)))"

text \<open>\<^verbatim>\<open>__get_resource_list(*path_parts)\<close>\<close>

definition get_resource_list :: "'p pyenv \<Rightarrow> string list \<Rightarrow> exn + string list" where
  "get_resource_list env path_parts =
     (if frozen env
      then os_listdir env (os_path_join env (os_path_dirname env (executable env)) path_parts)
      else resource_listdir env (str_join ''/'' (''pympress'' # path_parts)))"

definition get_locale_dir :: "'p pyenv \<Rightarrow> exn + string" where
  "get_locale_dir env = get_resource_path env [''share'', ''locale'']"

definition get_icon_pixbuf :: "'p pyenv \<Rightarrow> string \<Rightarrow> exn + 'p" where
  "get_icon_pixbuf env name =
     (case get_resource_path env [''share'', ''pixmaps'', name] of
        Inl e \<Rightarrow> Inl e
      | Inr fn \<Rightarrow> pixbuf_new_from_file env fn)"

definition get_ui_resource_file :: "'p pyenv \<Rightarrow> string \<Rightarrow> exn + string" where
  "get_ui_resource_file env name =
     get_resource_path env [''share'', ''xml'', name @ ''.glade'']"

text \<open>
  The condition of the list comprehension of \<^verbatim>\<open>list_icons\<close>:
  \<^verbatim>\<open>os.path.splitext(i)[1].lower() == '.png' and i[:9] == 'pympress-'\<close>.
\<close>

definition is_icon :: "string \<Rightarrow> bool" where
  "is_icon i = (lower (snd (splitext i)) = ''.png'' \<and> take 9 i = ''pympress-'')"

definition list_icons :: "'p pyenv \<Rightarrow> exn + string list" where
  "list_icons env =
     (case get_resource_list env [''share'', ''pixmaps''] of
        Inl e \<Rightarrow> Inl e
      | Inr icons \<Rightarrow> Inr [i \<leftarrow> icons. is_icon i])"

text \<open>
  \<^verbatim>\<open>load_icons\<close>: the loop body catches every \<^verbatim>\<open>Exception\<close> of
  \<^verbatim>\<open>get_icon_pixbuf\<close> and logs it with \<^verbatim>\<open>logger.exception('Error loading icons')\<close>;
  the call of \<^verbatim>\<open>list_icons\<close> is outside the \<^verbatim>\<open>try\<close>. The result is the list of
  icons and the records written to the logger.
\<close>

fun load_icons_loop :: "'p pyenv \<Rightarrow> string list \<Rightarrow> 'p list \<times> log_record list \<Rightarrow> 'p list \<times> log_record list"
  where
  "load_icons_loop env [] (icons, logged) = (icons, logged)"
| "load_icons_loop env (icon_name # rest) (icons, logged) =
     (case get_icon_pixbuf env icon_name of
        Inr icon_pixbuf \<Rightarrow> load_icons_loop env rest (icons @ [icon_pixbuf], logged)
      | Inl e \<Rightarrow> load_icons_loop env rest (icons, logged @ [LogException ''Error loading icons'' e]))"

definition load_icons :: "'p pyenv \<Rightarrow> exn + 'p list \<times> log_record list" where
  "load_icons env =
     (case list_icons env of
        Inl e \<Rightarrow> Inl e
      | Inr names \<Rightarrow> Inr (load_icons_loop env names ([], [])))"


subsection \<open>Screensaver controller\<close>

text \<open>The host: \<^verbatim>\<open>os.name\<close>, \<^verbatim>\<open>sys.platform\<close> and \<^verbatim>\<open>os.getpid()\<close>.\<close>

record host =
  os_name :: string
  sys_platform :: string
  getpid :: nat

definition IS_POSIX :: "host \<Rightarrow> bool" where
  "IS_POSIX h = (os_name h = ''posix'')"

definition IS_MAC_OS :: "host \<Rightarrow> bool" where
  "IS_MAC_OS h = (sys_platform h = ''darwin'')"

definition IS_WINDOWS :: "host \<Rightarrow> bool" where
  "IS_WINDOWS h = (os_name h = ''nt'')"

text \<open>\<^verbatim>\<open>str(n)\<close> for a natural number: its decimal digits.\<close>

definition digit_char :: "nat \<Rightarrow> char" where
  "digit_char d = char_of (48 + d)"

function str_nat :: "nat \<Rightarrow> string" where
  "str_nat n = (if n < 10 then [digit_char n] else str_nat (n div 10) @ [digit_char (n mod 10)])"
  by pat_completeness auto
termination
  by (relation "measure id") auto

declare str_nat.simps [simp del]

text \<open>
  \<^verbatim>\<open>s.count(sub)\<close>: the number of non-overlapping occurrences of \<open>sub\<close> in \<open>s\<close>,
  counted from the left.
\<close>

function str_count :: "string \<Rightarrow> string \<Rightarrow> nat" where
  "str_count sub s =
     (if sub = [] then length s + 1
      else if s = [] then 0
      else if prefix sub s then 1 + str_count sub (drop (length sub) s)
      else str_count sub (tl s))"
  by pat_completeness auto
termination
  by (relation "measure (\<lambda>(sub, s). length s)") auto

declare str_count.simps [simp del]

text \<open>
  \<^verbatim>\<open>s.split()\<close>: the words between runs of white space, which among the code points
  below 256 are the following.
\<close>

definition is_space :: "char \<Rightarrow> bool" where
  "is_space c =
     (c \<in> set [CHR '' '', CHR 0x09, CHR 0x0A, CHR 0x0B, CHR 0x0C, CHR 0x0D,
                CHR 0x1C, CHR 0x1D, CHR 0x1E, CHR 0x1F, CHR 0x85, CHR 0xA0])"

fun split_ws_from :: "string \<Rightarrow> string \<Rightarrow> string list" where
  "split_ws_from cur [] = (if cur = [] then [] else [cur])"
| "split_ws_from cur (c # cs) =
     (if is_space c
      then (if cur = [] then split_ws_from [] cs else cur # split_ws_from [] cs)
      else split_ws_from (cur @ [c]) cs)"

definition split_ws :: "string \<Rightarrow> string list" where
  "split_ws s = split_ws_from [] s"

text \<open>
  The value of the attribute \<^verbatim>\<open>set_screensaver.dpms_was_enabled\<close>: \<^verbatim>\<open>None\<close>
  initially, a \<^verbatim>\<open>bool\<close> on X11 and Windows, the \<^verbatim>\<open>subprocess.Popen\<close> object of
  \<^verbatim>\<open>caffeinate\<close> on macOS (here the handle of the process).
\<close>

datatype dpms_record = PyNone | PyBool bool | PyPopen nat

text \<open>Python's truth value of the attribute.\<close>

fun truthy :: "dpms_record \<Rightarrow> bool" where
  "truthy PyNone = False"
| "truthy (PyBool b) = b"
| "truthy (PyPopen h) = True"

text \<open>
  A mock of the operating system behind the calls of \<^verbatim>\<open>set_screensaver\<close>:
  \<^item> \<open>display_open\<close>: whether X clients (\<^verbatim>\<open>xset\<close>, \<^verbatim>\<open>xdg-screensaver\<close>) reach the
    display; when they do not, they exit with status 1 and change nothing;
  \<^item> \<open>xss_suspended\<close>: the window ids, as written on the command line, for which
    \<^verbatim>\<open>xdg-screensaver\<close> holds the screensaver suspended;
  \<^item> \<open>dpms\<close>: whether DPMS screen blanking is enabled;
  \<^item> \<open>procs\<close>: the child processes spawned, each with its command line and its return
    code (\<open>None\<close> while it runs); a process handle is an index into this list;
  \<^item> \<open>reg_key_access\<close>: whether \<^verbatim>\<open>HKEY_CURRENT_USER\Control Panel\Desktop\<close> opens
    with the rights to query and set values;
  \<^item> \<open>reg_values\<close>: the values under that key, each with its registry type.
\<close>

datatype reg_type = REG_SZ | REG_EXPAND_SZ | REG_DWORD

record os_state =
  display_open :: bool
  xss_suspended :: "string set"
  dpms :: bool
  procs :: "(string list \<times> int option) list"
  reg_key_access :: bool
  reg_values :: "string \<Rightarrow> (string \<times> reg_type) option"

definition strip_prefix :: "string \<Rightarrow> string \<Rightarrow> string option" where
  "strip_prefix p s = (if prefix p s then Some (drop (length p) s) else None)"

text \<open>
  \<^verbatim>\<open>os.system(cmd)\<close> on the mock: the exit status in the encoding of \<^verbatim>\<open>wait()\<close>
  (exit code times 256) and the new state.
\<close>

definition mock_system :: "string \<Rightarrow> os_state \<Rightarrow> nat \<times> os_state" where
  "mock_system cmd s =
     (if cmd = ''xset -dpms'' then
        (if display_open s then (0, s\<lparr>dpms := False\<rparr>) else (256, s))
      else if cmd = ''xset +dpms'' then
        (if display_open s then (0, s\<lparr>dpms := True\<rparr>) else (256, s))
      else (case strip_prefix ''xdg-screensaver suspend '' cmd of
          Some wid \<Rightarrow>
            (if display_open s then (0, s\<lparr>xss_suspended := insert wid (xss_suspended s)\<rparr>)
             else (256, s))
        | None \<Rightarrow>
            (case strip_prefix ''xdg-screensaver resume '' cmd of
               Some wid \<Rightarrow>
                 (if display_open s then (0, s\<lparr>xss_suspended := xss_suspended s - {wid}\<rparr>)
                  else (256, s))
             | None \<Rightarrow> (32512, s))))"

text \<open>\<^verbatim>\<open>os.popen("xset q").readlines()\<close> on the mock.\<close>

definition xset_q_lines :: "os_state \<Rightarrow> string list" where
  "xset_q_lines s =
     (if display_open s then
        [''Screen Saver:\<newline>'',
         ''  prefer blanking:  yes    allow exposures:  yes\<newline>'',
         ''  timeout:  600    cycle:  600\<newline>'',
         ''DPMS (Energy Star):\<newline>'',
         ''  Standby: 600    Suspend: 600    Off: 600\<newline>'',
         (if dpms s then ''  DPMS is Enabled\<newline>'' else ''  DPMS is Disabled\<newline>'')]
      else [])"

definition mock_popen_readlines :: "string \<Rightarrow> os_state \<Rightarrow> string list" where
  "mock_popen_readlines cmd s = (if cmd = ''xset q'' then xset_q_lines s else [])"

text \<open>
  The calls to the operating system, in the order made; the state of the controller is
  the recorded attribute, the mock, this trace and the logger's records.
\<close>

datatype os_call =
    OsSystem string
  | OsPopen string
  | SubprocessPopen "string list"
  | ProcPoll nat
  | ProcKill nat
  | RegOpenKey
  | RegQueryValueEx string
  | RegSetValueEx string string

record ss_state =
  dpms_was_enabled :: dpms_record
  opsys :: os_state
  trace :: "os_call list"
  logged :: "log_record list"

definition os_system :: "string \<Rightarrow> ss_state \<Rightarrow> nat \<times> ss_state" where
  "os_system cmd w =
     (let (status, s') = mock_system cmd (opsys w)
      in (status, w\<lparr>opsys := s', trace := trace w @ [OsSystem cmd]\<rparr>))"

definition os_popen_readlines :: "string \<Rightarrow> ss_state \<Rightarrow> string list \<times> ss_state" where
  "os_popen_readlines cmd w =
     (mock_popen_readlines cmd (opsys w), w\<lparr>trace := trace w @ [OsPopen cmd]\<rparr>)"

definition logger_warning :: "string \<Rightarrow> ss_state \<Rightarrow> ss_state" where
  "logger_warning msg w = w\<lparr>logged := logged w @ [LogWarning msg]\<rparr>"

definition logger_exception :: "string \<Rightarrow> exn \<Rightarrow> ss_state \<Rightarrow> ss_state" where
  "logger_exception msg e w = w\<lparr>logged := logged w @ [LogException msg e]\<rparr>"

text \<open>\<^verbatim>\<open>subprocess.Popen(argv)\<close>, \<^verbatim>\<open>p.poll()\<close> and \<^verbatim>\<open>p.kill()\<close>.\<close>

definition subprocess_Popen :: "string list \<Rightarrow> ss_state \<Rightarrow> nat \<times> ss_state" where
  "subprocess_Popen argv w =
     (length (procs (opsys w)),
      w\<lparr>opsys := (opsys w)\<lparr>procs := procs (opsys w) @ [(argv, None)]\<rparr>,
        trace := trace w @ [SubprocessPopen argv]\<rparr>)"

definition proc_poll :: "nat \<Rightarrow> ss_state \<Rightarrow> int option \<times> ss_state" where
  "proc_poll h w =
     ((if h < length (procs (opsys w)) then snd (procs (opsys w) ! h) else Some 0),
      w\<lparr>trace := trace w @ [ProcPoll h]\<rparr>)"

definition proc_kill :: "nat \<Rightarrow> ss_state \<Rightarrow> ss_state" where
  "proc_kill h w =
     (let ps = procs (opsys w);
          ps' = (if h < length ps \<and> snd (ps ! h) = None then ps[h := (fst (ps ! h), Some (- 9))]
                 else ps)
      in w\<lparr>opsys := (opsys w)\<lparr>procs := ps'\<rparr>, trace := trace w @ [ProcKill h]\<rparr>)"

text \<open>Python's truth value of what \<^verbatim>\<open>poll()\<close> returns: \<^verbatim>\<open>None\<close> and 0 are false.\<close>

definition poll_truthy :: "int option \<Rightarrow> bool" where
  "poll_truthy r = (case r of None \<Rightarrow> False | Some c \<Rightarrow> c \<noteq> 0)"

text \<open>
  \<^verbatim>\<open>set_screensaver.dpms_was_enabled.poll()\<close>: only a \<^verbatim>\<open>Popen\<close> object has the
  method.
\<close>

definition recorded_poll :: "ss_state \<Rightarrow> exn + (int option \<times> ss_state)" where
  "recorded_poll w =
     (case dpms_was_enabled w of
        PyPopen h \<Rightarrow> Inr (proc_poll h w)
      | PyBool b \<Rightarrow> Inl (AttributeError ''poll'')
      | PyNone \<Rightarrow> Inl (AttributeError ''poll''))"

text \<open>The window: \<^verbatim>\<open>window.get_xid()\<close>.\<close>

record window =
  get_xid :: nat

text \<open>
  The three platform branches of \<^verbatim>\<open>set_screensaver(must_disable, window)\<close>. Each
  returns the exception that leaves the function, if any, and the state. The messages
  are logged as written in the source: the translation \<^verbatim>\<open>_\<close> is the identity here.
\<close>

definition set_screensaver_macos :: "host \<Rightarrow> bool \<Rightarrow> ss_state \<Rightarrow> exn option \<times> ss_state" where
  "set_screensaver_macos h must_disable w =
     (if must_disable then
        (if dpms_was_enabled w = PyNone then
           (let (p, w1) = subprocess_Popen [''caffeinate'', ''-d'', ''-w'', str_nat (getpid h)] w
            in (None, w1\<lparr>dpms_was_enabled := PyPopen p\<rparr>))
         else (case recorded_poll w of
             Inl e \<Rightarrow> (Some e, w)
           | Inr (r, w1) \<Rightarrow>
               (if poll_truthy r then
                  (let (p, w2) = subprocess_Popen [''caffeinate'', ''-d'', ''-w'', str_nat (getpid h)] w1
                   in (None, w2\<lparr>dpms_was_enabled := PyPopen p\<rparr>))
                else (None, w1))))
      else
        (if truthy (dpms_was_enabled w) then
           (case recorded_poll w of
              Inl e \<Rightarrow> (Some e, w)
            | Inr (r, w1) \<Rightarrow>
                (if \<not> poll_truthy r then
                   (case dpms_was_enabled w1 of
                      PyPopen p \<Rightarrow>
                        (let w2 = proc_kill p w1;
                             (r', w3) = proc_poll p w2
                         in (None, w3\<lparr>dpms_was_enabled := PyNone\<rparr>))
                    | _ \<Rightarrow> (Some (AttributeError ''kill''), w1))
                 else (None, w1)))
         else (None, w)))"

text \<open>
  \<^verbatim>\<open>for line in pipe.readlines(): if line.count("DPMS is") > 0: ...; break\<close>, starting
  from \<^verbatim>\<open>dpms_status = "Disabled"\<close>. A line that contains \<^verbatim>\<open>DPMS is\<close> has a last
  word.
\<close>

fun read_dpms_status :: "string list \<Rightarrow> string" where
  "read_dpms_status [] = ''Disabled''"
| "read_dpms_status (line # rest) =
     (if str_count ''DPMS is'' line > 0 then last (split_ws line)
      else read_dpms_status rest)"

definition warn_status :: "string \<Rightarrow> nat \<Rightarrow> ss_state \<Rightarrow> ss_state" where
  "warn_status msg status w =
     (if status \<noteq> 0 then logger_warning (msg @ str_nat status) w else w)"

definition set_screensaver_posix :: "bool \<Rightarrow> window \<Rightarrow> ss_state \<Rightarrow> exn option \<times> ss_state" where
  "set_screensaver_posix must_disable win w =
     (let cmd = (if must_disable then ''suspend'' else ''resume'');
          (status, w1) = os_system (''xdg-screensaver '' @ cmd @ '' '' @ str_nat (get_xid win)) w;
          w2 = warn_status ''Could not set screensaver status: got status '' status w1
      in if must_disable then
           (let (lines, w3) = os_popen_readlines ''xset q'' w2;
                dpms_status = read_dpms_status lines
            in if dpms_status = ''Enabled'' then
                 (let w4 = w3\<lparr>dpms_was_enabled := PyBool True\<rparr>;
                      (status', w5) = os_system ''xset -dpms'' w4
                  in (None, warn_status ''Could not disable DPMS screen blanking: got status '' status' w5))
               else (None, w3\<lparr>dpms_was_enabled := PyBool False\<rparr>))
         else if truthy (dpms_was_enabled w2) then
           (let (status', w3) = os_system ''xset +dpms'' w2
            in (None, warn_status ''Could not enable DPMS screen blanking: got status '' status' w3))
         else (None, w2))"

text \<open>
  The registry calls: \<^verbatim>\<open>winreg.OpenKey\<close> raises \<^verbatim>\<open>OSError\<close> when the key does not
  open, \<^verbatim>\<open>winreg.QueryValueEx\<close> when the value does not exist.
\<close>

definition reg_OpenKey :: "ss_state \<Rightarrow> exn + ss_state" where
  "reg_OpenKey w =
     (if reg_key_access (opsys w) then Inr (w\<lparr>trace := trace w @ [RegOpenKey]\<rparr>)
      else Inl (OSError ''OpenKey''))"

definition reg_QueryValueEx :: "string \<Rightarrow> ss_state \<Rightarrow> exn + ((string \<times> reg_type) \<times> ss_state)" where
  "reg_QueryValueEx name w =
     (case reg_values (opsys w) name of
        None \<Rightarrow> Inl (OSError ''QueryValueEx'')
      | Some v \<Rightarrow> Inr (v, w\<lparr>trace := trace w @ [RegQueryValueEx name]\<rparr>))"

definition reg_SetValueEx :: "string \<Rightarrow> string \<Rightarrow> ss_state \<Rightarrow> ss_state" where
  "reg_SetValueEx name v w =
     w\<lparr>opsys := (opsys w)\<lparr>reg_values := (reg_values (opsys w))(name \<mapsto> (v, REG_SZ))\<rparr>,
       trace := trace w @ [RegSetValueEx name v]\<rparr>"

text \<open>
  The body of the \<^verbatim>\<open>with winreg.OpenKey(...) as key:\<close> block, which returns the
  exception raised in it, if any, with the state reached by then; and the \<^verbatim>\<open>try\<close>
  around it, which catches \<^verbatim>\<open>OSError\<close> (\<^verbatim>\<open>PermissionError\<close> is one) and lets any other
  exception pass.
\<close>

definition set_screensaver_key :: "bool \<Rightarrow> ss_state \<Rightarrow> exn option \<times> ss_state" where
  "set_screensaver_key must_disable w =
     (if must_disable then
        (case reg_QueryValueEx ''ScreenSaveActive'' w of
           Inl e \<Rightarrow> (Some e, w)
         | Inr ((val, ty), w1) \<Rightarrow>
             (if ty \<noteq> REG_SZ then (Some AssertionError, w1)
              else (let w2 = w1\<lparr>dpms_was_enabled := PyBool (val = ''1'')\<rparr>
                    in if truthy (dpms_was_enabled w2)
                       then (None, reg_SetValueEx ''ScreenSaveActive'' ''0'' w2)
                       else (None, w2))))
      else if truthy (dpms_was_enabled w) then
        (None, reg_SetValueEx ''ScreenSaveActive'' ''1'' w)
      else (None, w))"

definition set_screensaver_windows :: "bool \<Rightarrow> ss_state \<Rightarrow> exn option \<times> ss_state" where
  "set_screensaver_windows must_disable w =
     (let msg = ''access denied when trying to access screen saver settings in registry!''
      in case reg_OpenKey w of
           Inl e \<Rightarrow> (None, logger_exception msg e w)
         | Inr w1 \<Rightarrow>
             (case set_screensaver_key must_disable w1 of
                (None, w2) \<Rightarrow> (None, w2)
              | (Some (OSError m), w2) \<Rightarrow> (None, logger_exception msg (OSError m) w2)
              | (Some e, w2) \<Rightarrow> (Some e, w2)))"

definition set_screensaver :: "host \<Rightarrow> bool \<Rightarrow> window \<Rightarrow> ss_state \<Rightarrow> exn option \<times> ss_state" where
  "set_screensaver h must_disable win w =
     (if IS_MAC_OS h then set_screensaver_macos h must_disable w
      else if IS_POSIX h then set_screensaver_posix must_disable win w
      else if IS_WINDOWS h then set_screensaver_windows must_disable w
      else (None, logger_warning ''Unsupported OS: can't enable/disable screensaver'' w))"

text \<open>
  The calls that change the state of the operating system: a shell command, a spawned
  or killed process, a registry value written.
\<close>

fun mutating :: "os_call \<Rightarrow> bool" where
  "mutating (OsSystem cmd) = True"
| "mutating (SubprocessPopen argv) = True"
| "mutating (ProcKill h) = True"
| "mutating (RegSetValueEx name v) = True"
| "mutating (OsPopen cmd) = False"
| "mutating (ProcPoll h) = False"
| "mutating RegOpenKey = False"
| "mutating (RegQueryValueEx name) = False"


subsection \<open>FileWatcher\<close>

text \<open>
  The class attributes of \<^verbatim>\<open>FileWatcher\<close> and the two libraries behind them, as one
  state. \<open>'cb\<close> are the callbacks, \<open>'a\<close> their bound arguments (\<^verbatim>\<open>*args, **kwargs\<close>).
  \<^item> \<open>timeout\<close>: \<^verbatim>\<open>cls.timeout\<close>, the id of the GLib timeout, 0 for none;
  \<^item> \<open>on_modified\<close>: \<^verbatim>\<open>cls.monitor.on_modified\<close>. The handler of a fresh
    \<^verbatim>\<open>FileSystemEventHandler\<close> does nothing (\<open>None\<close>); \<^verbatim>\<open>watch_file\<close> installs the
    closure \<^verbatim>\<open>lambda evt: cls.enqueue(callback, *args, **kwargs) if evt.src_path == path else None\<close>,
    kept as the values it captures, \<open>Some (path, callback, args)\<close>;
  \<^item> \<open>observer_alive\<close>: \<^verbatim>\<open>cls.observer.is_alive()\<close>; \<open>observer_starts\<close> counts the
    calls of \<^verbatim>\<open>cls.observer.start()\<close>; \<open>observer_watches\<close> are the directories
    scheduled with \<^verbatim>\<open>cls.monitor\<close> as their handler;
  \<^item> \<open>fs_schedulable\<close>: the directories that \<^verbatim>\<open>observer.schedule\<close> can watch; for any
    other it raises \<^verbatim>\<open>OSError\<close>;
  \<^item> \<open>glib_clock\<close>: the time of the GLib main loop in milliseconds; \<open>glib_sources\<close>:
    its pending timeout sources, each with its id, the time it is due and the arguments
    bound to \<^verbatim>\<open>cls.call\<close>; \<open>glib_last_id\<close>: the last source id given out (ids are
    positive);
  \<^item> \<open>invoked\<close>: the calls of callbacks made so far, in order;
  \<^item> \<open>stdout\<close>: the lines printed; \<open>wlogged\<close>: the records written to the logger.
  The observer thread is never stopped here: \<^verbatim>\<open>stop_daemon\<close> is not part of this
  model, and \<open>observer_alive = False\<close> is a thread not yet started.
\<close>

record ('cb, 'a) watcher =
  timeout :: nat
  on_modified :: "(string \<times> 'cb \<times> 'a) option"
  observer_alive :: bool
  observer_starts :: nat
  observer_watches :: "string list"
  fs_schedulable :: "string \<Rightarrow> bool"
  glib_clock :: nat
  glib_sources :: "(nat \<times> nat \<times> 'cb \<times> 'a) list"
  glib_last_id :: nat
  invoked :: "('cb \<times> 'a) list"
  stdout :: "string list"
  wlogged :: "log_record list"

text \<open>\<^verbatim>\<open>GLib.Source.remove(id)\<close> and \<^verbatim>\<open>GLib.timeout_add(interval, cls.call, ...)\<close>\<close>

definition GLib_Source_remove :: "nat \<Rightarrow> ('cb, 'a) watcher \<Rightarrow> ('cb, 'a) watcher" where
  "GLib_Source_remove sid w =
     w\<lparr>glib_sources := [s \<leftarrow> glib_sources w. fst s \<noteq> sid]\<rparr>"

definition GLib_timeout_add ::
  "nat \<Rightarrow> 'cb \<Rightarrow> 'a \<Rightarrow> ('cb, 'a) watcher \<Rightarrow> nat \<times> ('cb, 'a) watcher" where
  "GLib_timeout_add interval callback args w =
     (let sid = Suc (glib_last_id w)
      in (sid, w\<lparr>glib_sources := glib_sources w @ [(sid, glib_clock w + interval, callback, args)],
                glib_last_id := sid\<rparr>))"

text \<open>\<^verbatim>\<open>FileWatcher.enqueue(callback, *args, **kwargs)\<close>\<close>

definition enqueue :: "'cb \<Rightarrow> 'a \<Rightarrow> ('cb, 'a) watcher \<Rightarrow> ('cb, 'a) watcher" where
  "enqueue callback args w =
     (let w1 = (if timeout w \<noteq> 0 then GLib_Source_remove (timeout w) w else w);
          (sid, w2) = GLib_timeout_add 200 callback args w1
      in w2\<lparr>timeout := sid\<rparr>)"

text \<open>\<^verbatim>\<open>FileWatcher.call(callback, *args, **kwargs)\<close>; it returns \<^verbatim>\<open>None\<close>.\<close>

definition call :: "'cb \<Rightarrow> 'a \<Rightarrow> ('cb, 'a) watcher \<Rightarrow> ('cb, 'a) watcher" where
  "call callback args w =
     (let w1 = (if timeout w \<noteq> 0 then w\<lparr>timeout := 0\<rparr> else w)
      in w1\<lparr>invoked := invoked w1 @ [(callback, args)]\<rparr>)"

text \<open>
  The GLib main loop running until time \<open>t\<close>: every source that is due is dispatched, in
  the order the sources were added, and destroyed, since \<^verbatim>\<open>cls.call\<close> returns a false
  value.
\<close>

definition main_loop_until :: "nat \<Rightarrow> ('cb, 'a) watcher \<Rightarrow> ('cb, 'a) watcher" where
  "main_loop_until t w =
     (let w1 = w\<lparr>glib_clock := max t (glib_clock w)\<rparr>;
          ready = [s \<leftarrow> glib_sources w1. fst (snd s) \<le> glib_clock w1];
          w2 = foldl (\<lambda>v s. call (fst (snd (snd s))) (snd (snd (snd s))) v) w1 ready
      in w2\<lparr>glib_sources := [s \<leftarrow> glib_sources w2. \<not> fst (snd s) \<le> glib_clock w1]\<rparr>)"

text \<open>\<^verbatim>\<open>FileWatcher.start_daemon()\<close>\<close>

definition start_daemon :: "('cb, 'a) watcher \<Rightarrow> ('cb, 'a) watcher" where
  "start_daemon w =
     (if \<not> observer_alive w
      then w\<lparr>observer_alive := True, observer_starts := observer_starts w + 1\<rparr>
      else w)"

text \<open>\<^verbatim>\<open>FileWatcher.stop_watching()\<close>: \<^verbatim>\<open>cls.observer.unschedule_all()\<close>\<close>

definition stop_watching :: "('cb, 'a) watcher \<Rightarrow> ('cb, 'a) watcher" where
  "stop_watching w = w\<lparr>observer_watches := []\<rparr>"

text \<open>\<^verbatim>\<open>cls.observer.schedule(cls.monitor, directory)\<close>\<close>

definition observer_schedule :: "string \<Rightarrow> ('cb, 'a) watcher \<Rightarrow> exn + ('cb, 'a) watcher" where
  "observer_schedule directory w =
     (if fs_schedulable w directory
      then Inr (w\<lparr>observer_watches := observer_watches w @ [directory]\<rparr>)
      else Inl (OSError directory))"

text \<open>
  \<^verbatim>\<open>FileWatcher.watch_file(path, callback, *args, **kwargs)\<close>: the exception that
  leaves it, if any, and the state. Only \<^verbatim>\<open>OSError\<close> is caught. The directory is
  taken with \<^verbatim>\<open>os.path.dirname\<close> in its POSIX flavour.
\<close>

definition watch_file ::
  "string \<Rightarrow> 'cb \<Rightarrow> 'a \<Rightarrow> ('cb, 'a) watcher \<Rightarrow> exn option \<times> ('cb, 'a) watcher" where
  "watch_file path callback args w =
     (let w1 = start_daemon w;
          w2 = stop_watching w1;
          directory = dirname path;
          w3 = w2\<lparr>on_modified := Some (path, callback, args)\<rparr>
      in case observer_schedule directory w3 of
           Inr w4 \<Rightarrow> (None, w4)
         | Inl (OSError m) \<Rightarrow>
             (None, w3\<lparr>stdout := stdout w3 @ [''Impossible to open dir at '' @ directory]\<rparr>)
         | Inl e \<Rightarrow> (Some e, w3))"

text \<open>
  The handler \<^verbatim>\<open>cls.monitor.on_modified(evt)\<close> applied to an event with the given
  \<^verbatim>\<open>src_path\<close>.
\<close>

definition monitor_on_modified :: "string \<Rightarrow> ('cb, 'a) watcher \<Rightarrow> ('cb, 'a) watcher" where
  "monitor_on_modified src_path w =
     (case on_modified w of
        None \<Rightarrow> w
      | Some (path, callback, args) \<Rightarrow>
          (if src_path = path then enqueue callback args w else w))"

text \<open>
  The observer thread dispatching a modification event: the event was emitted for the
  watch on \<open>directory\<close>, and reaches the handler when the thread runs and that watch is
  still scheduled.
\<close>

definition dispatch_modified ::
  "string \<Rightarrow> string \<Rightarrow> ('cb, 'a) watcher \<Rightarrow> ('cb, 'a) watcher" where
  "dispatch_modified directory src_path w =
     (if observer_alive w \<and> directory \<in> set (observer_watches w)
      then monitor_on_modified src_path w else w)"

text \<open>
  What happens to the watcher, each at a time of the main loop's clock: a file
  modification reported by the operating system, or a call of one of the class methods.
\<close>

datatype ('cb, 'a) action =
    Modified string string
  | Enqueue 'cb 'a
  | WatchFile string 'cb 'a
  | StopWatching

fun perform :: "('cb, 'a) action \<Rightarrow> ('cb, 'a) watcher \<Rightarrow> ('cb, 'a) watcher" where
  "perform (Modified directory src_path) w = dispatch_modified directory src_path w"
| "perform (Enqueue callback args) w = enqueue callback args w"
| "perform (WatchFile path callback args) w = snd (watch_file path callback args w)"
| "perform StopWatching w = stop_watching w"

fun run :: "(nat \<times> ('cb, 'a) action) list \<Rightarrow> ('cb, 'a) watcher \<Rightarrow> ('cb, 'a) watcher" where
  "run [] w = w"
| "run ((t, a) # evs) w = run evs (perform a (main_loop_until t w))"

text \<open>Time passing with nothing happening: the main loop alone, at each of the times.\<close>

fun idle :: "nat list \<Rightarrow> ('cb, 'a) watcher \<Rightarrow> ('cb, 'a) watcher" where
  "idle [] w = w"
| "idle (t # ts) w = idle ts (main_loop_until t w)"

text \<open>
  The call of \<^verbatim>\<open>enqueue\<close> that an action leads to in a state, if any: a direct call,
  or the handler's for a modification of the watched path.
\<close>

fun schedules :: "('cb, 'a) watcher \<Rightarrow> ('cb, 'a) action \<Rightarrow> ('cb \<times> 'a) option" where
  "schedules w (Enqueue callback args) = Some (callback, args)"
| "schedules w (Modified directory src_path) =
     (if observer_alive w \<and> directory \<in> set (observer_watches w)
      then (case on_modified w of
              None \<Rightarrow> None
            | Some (path, callback, args) \<Rightarrow>
                (if src_path = path then Some (callback, args) else None))
      else None)"
| "schedules w (WatchFile path callback args) = None"
| "schedules w StopWatching = None"

text \<open>
  Events arriving within the debounce window: in order of time, each less than 200 ms
  after the one before, that is, before the timer armed by the one before expires.
\<close>

fun within_window :: "nat list \<Rightarrow> bool" where
  "within_window [] = True"
| "within_window [t] = True"
| "within_window (t # t' # ts) = (t \<le> t' \<and> t' < t + 200 \<and> within_window (t' # ts))"

text \<open>The state of the class before any call: no timer, no watch, thread not started.\<close>

definition initial_watcher :: "(string \<Rightarrow> bool) \<Rightarrow> ('cb, 'a) watcher" where
  "initial_watcher schedulable =
     \<lparr>timeout = 0, on_modified = None, observer_alive = False, observer_starts = 0,
      observer_watches = [], fs_schedulable = schedulable, glib_clock = 0, glib_sources = [],
      glib_last_id = 0, invoked = [], stdout = [], wlogged = []\<rparr>"

subsection \<open>Notions used to state the properties\<close>

text \<open>
  A directory as the leading part of the paths below it: \<open>os.path.join\<close> adds the
  separator unless the directory is empty or already ends in it.
\<close>

definition dir_prefix :: "string \<Rightarrow> string" where
  "dir_prefix d = (if d = [] \<or> endswith_sep d then d else d @ ''/'')"

text \<open>
  A valid relative resource name: it does not start with the separator and has no
  empty component (no two separators in a row).
\<close>

fun no_double_sep :: "string \<Rightarrow> bool" where
  "no_double_sep [] = True"
| "no_double_sep [c] = True"
| "no_double_sep (c # d # cs) = (\<not> (c = CHR ''/'' \<and> d = CHR ''/'') \<and> no_double_sep (d # cs))"

definition valid_relative :: "string \<Rightarrow> bool" where
  "valid_relative name = (\<not> startswith_sep name \<and> no_double_sep name)"

text \<open>
  The same for \<^verbatim>\<open>ntpath\<close>: the directory as \<^verbatim>\<open>ntpath.join\<close> puts it in front of a
  relative part; a path written as its components, joined by the backslash; and a name
  that is a single component: no separator and no colon.
\<close>

definition nt_dir_prefix :: "string \<Rightarrow> string" where
  "nt_dir_prefix d =
     (let (drive, path) = nt_splitdrive d
      in if path = [] then
           (if drive \<noteq> [] \<and> last drive \<noteq> CHR '':'' then drive @ [bslash] else drive)
         else if \<not> nt_sep (hd path) \<and> drive \<noteq> [] \<and> last drive \<noteq> CHR '':''
         then drive @ [bslash] @ nt_with_sep path
         else drive @ nt_with_sep path)"

definition nt_path :: "string list \<Rightarrow> string" where
  "nt_path components = str_join [bslash] components"

definition nt_plain :: "string \<Rightarrow> bool" where
  "nt_plain name = list_all (\<lambda>c. \<not> nt_sep c \<and> c \<noteq> CHR '':'') name"

text \<open>
  The debounce timer of a watcher: \<open>quiet\<close> when none is pending, \<open>armed due c\<close> when
  the one pending source is the one \<^verbatim>\<open>cls.timeout\<close> names, is due at \<open>due\<close> and will
  call \<open>c\<close>. Two states have the \<open>same_watch\<close> when handler, thread and watches agree.
\<close>

definition quiet :: "('cb, 'a) watcher \<Rightarrow> bool" where
  "quiet w = (timeout w = 0 \<and> glib_sources w = [])"

definition armed :: "nat \<Rightarrow> 'cb \<times> 'a \<Rightarrow> ('cb, 'a) watcher \<Rightarrow> bool" where
  "armed due c w =
     (timeout w \<noteq> 0 \<and> glib_sources w = [(timeout w, due, fst c, snd c)] \<and> glib_clock w < due)"

definition same_watch :: "('cb, 'a) watcher \<Rightarrow> ('cb, 'a) watcher \<Rightarrow> bool" where
  "same_watch v w =
     (on_modified v = on_modified w \<and> observer_alive v = observer_alive w
      \<and> observer_watches v = observer_watches w)"

subsection \<open>Concrete surroundings\<close>

text \<open>
  A frozen installation under \<^verbatim>\<open>/opt/pympress\<close> whose pixmaps directory holds four
  entries, of which one icon loads (as the pixbuf 16) and one does not; and the same
  files installed as a package under \<^verbatim>\<open>/usr/lib/python3/site-packages\<close>.
\<close>

definition example_listdir :: "string \<Rightarrow> exn + string list" where
  "example_listdir d =
     (if d = ''/opt/pympress/share/pixmaps''
      then Inr [''pympress-16.png'', ''README'', ''pympress-32.PNG'', ''logo.png'']
      else Inl (OSError d))"

definition example_new_from_file :: "string \<Rightarrow> exn + nat" where
  "example_new_from_file fn =
     (if fn = ''/opt/pympress/share/pixmaps/pympress-16.png'' then Inr 16
      else Inl (GLibError fn))"

definition example_frozen :: "nat pyenv" where
  "example_frozen =
     \<lparr>py_os_name = ''posix'', frozen = True, executable = ''/opt/pympress/pympress'',
      dist_location = None,
      os_listdir = example_listdir, pixbuf_new_from_file = example_new_from_file\<rparr>"

definition example_installed :: "nat pyenv" where
  "example_installed =
     \<lparr>py_os_name = ''posix'', frozen = False, executable = ''/usr/bin/python3'',
      dist_location = Some ''/usr/lib/python3/site-packages'',
      os_listdir = example_listdir, pixbuf_new_from_file = example_new_from_file\<rparr>"

text \<open>
  The same on Windows: frozen under \<^verbatim>\<open>C:\Program Files\pympress\<close>, and installed as a
  package under \<^verbatim>\<open>C:\Python\Lib\site-packages\<close>.
\<close>

definition example_frozen_windows :: "nat pyenv" where
  "example_frozen_windows =
     \<lparr>py_os_name = ''nt'', frozen = True,
      executable = nt_path [''C:'', ''Program Files'', ''pympress'', ''pympress.exe''],
      dist_location = None,
      os_listdir = example_listdir, pixbuf_new_from_file = example_new_from_file\<rparr>"

definition example_installed_windows :: "nat pyenv" where
  "example_installed_windows =
     \<lparr>py_os_name = ''nt'', frozen = False,
      executable = nt_path [''C:'', ''Python'', ''python.exe''],
      dist_location = Some (nt_path [''C:'', ''Python'', ''Lib'', ''site-packages'']),
      os_listdir = example_listdir, pixbuf_new_from_file = example_new_from_file\<rparr>"

text \<open>
  An X11 host and a Windows host, with DPMS enabled, the screensaver of window 7
  suspended, and the registry value \<^verbatim>\<open>ScreenSaveActive\<close> set to \<^verbatim>\<open>"1"\<close>; the
  controller has recorded nothing yet.
\<close>

definition example_x11 :: host where
  "example_x11 = \<lparr>os_name = ''posix'', sys_platform = ''linux'', getpid = 4242\<rparr>"

definition example_windows :: host where
  "example_windows = \<lparr>os_name = ''nt'', sys_platform = ''win32'', getpid = 4242\<rparr>"

definition example_registry :: "string \<Rightarrow> (string \<times> reg_type) option" where
  "example_registry name = (if name = ''ScreenSaveActive'' then Some (''1'', REG_SZ) else None)"

definition example_os :: os_state where
  "example_os =
     \<lparr>display_open = True, xss_suspended = {''7''}, dpms = True, procs = [],
      reg_key_access = True, reg_values = example_registry\<rparr>"

definition example_ss :: ss_state where
  "example_ss = \<lparr>dpms_was_enabled = PyNone, opsys = example_os, trace = [], logged = []\<rparr>"

definition example_window :: window where
  "example_window = \<lparr>get_xid = 7\<rparr>"

text \<open>
  A file system in which every directory can be watched, one in which none can, and
  the watcher after \<^verbatim>\<open>watch_file('/tmp/doc.pdf', reload, 'doc')\<close>.
\<close>

definition all_schedulable :: "string \<Rightarrow> bool" where
  "all_schedulable d = True"

definition none_schedulable :: "string \<Rightarrow> bool" where
  "none_schedulable d = False"

definition example_watcher :: "(string, string list) watcher" where
  "example_watcher =
     snd (watch_file ''/tmp/doc.pdf'' ''reload'' [''doc''] (initial_watcher all_schedulable))"

section \<open>Properties\<close>

subsection \<open>Resource resolver and icon loading\<close>

lemma split_not_Nil [simp]: "split c s \<noteq> []"
  by (induction s) (auto simp: Let_def)

lemma str_join_Cons: "ys \<noteq> [] \<Longrightarrow> str_join sep (x # ys) = x @ sep @ str_join sep ys"
  by (cases ys) auto

lemma str_join_split: "str_join [c] (split c s) = s"
proof (induction s)
  case Nil
  show ?case by simp
next
  case (Cons x s)
  obtain r rs where r: "split c s = r # rs"
    by (cases "split c s") (use split_not_Nil in auto)
  show ?case
  proof (cases "x = c")
    case True
    then show ?thesis using Cons by (simp add: str_join_Cons)
  next
    case False
    then show ?thesis using Cons r by (cases rs) (auto simp: Let_def)
  qed
qed

lemma split_no_sep: "p \<in> set (split c s) \<Longrightarrow> c \<notin> set p"
proof (induction s arbitrary: p)
  case Nil
  then show ?case by simp
next
  case (Cons x s)
  obtain r rs where r: "split c s = r # rs"
    by (cases "split c s") (use split_not_Nil in auto)
  have "c \<notin> set r" and "\<And>q. q \<in> set rs \<Longrightarrow> c \<notin> set q"
    using Cons.IH r by auto
  then show ?case using Cons.prems r
    by (auto simp: Let_def split: if_splits)
qed

lemma no_double_sep_tl: "no_double_sep (x # xs) \<Longrightarrow> no_double_sep xs"
  by (cases xs) auto

lemma split_parts_nonempty_aux:
  "no_double_sep s \<Longrightarrow> (s \<noteq> [] \<Longrightarrow> last s \<noteq> CHR ''/'') \<Longrightarrow>
     [] \<notin> set (tl (split CHR ''/'' s)) \<and>
     (hd (split CHR ''/'' s) = [] \<longleftrightarrow> s = [] \<or> hd s = CHR ''/'')"
proof (induction s)
  case Nil
  show ?case by simp
next
  case (Cons x xs)
  have nd: "no_double_sep xs" using Cons.prems(1) by (rule no_double_sep_tl)
  have lst: "xs \<noteq> [] \<Longrightarrow> last xs \<noteq> CHR ''/''" using Cons.prems(2) by auto
  note IH = Cons.IH [OF nd lst]
  obtain r rs where r: "split CHR ''/'' xs = r # rs"
    by (cases "split CHR ''/'' xs") (use split_not_Nil in auto)
  show ?case
  proof (cases "x = CHR ''/''")
    case True
    have "xs \<noteq> []" using Cons.prems(2) True by auto
    moreover have "hd xs \<noteq> CHR ''/''"
      using Cons.prems(1) True \<open>xs \<noteq> []\<close> by (cases xs) auto
    ultimately have "r \<noteq> []" using IH r by auto
    then show ?thesis using True IH r by auto
  next
    case False
    then show ?thesis using IH r by (auto simp: Let_def)
  qed
qed

lemma split_parts_nonempty:
  assumes "no_double_sep s" "s \<noteq> []" "hd s \<noteq> CHR ''/''" "last s \<noteq> CHR ''/''"
  shows "[] \<notin> set (split CHR ''/'' s)"
proof -
  obtain r rs where r: "split CHR ''/'' s = r # rs"
    by (cases "split CHR ''/'' s") (use split_not_Nil in auto)
  from split_parts_nonempty_aux [of s] assms r show ?thesis by auto
qed

lemma no_double_sep_append:
  "no_double_sep (a @ b) \<longleftrightarrow>
     no_double_sep a \<and> no_double_sep b \<and> \<not> (endswith_sep a \<and> startswith_sep b)"
proof (induction a rule: no_double_sep.induct)
  case 1
  show ?case by (simp add: endswith_sep_def)
next
  case (2 c)
  show ?case by (cases b) (auto simp: endswith_sep_def startswith_sep_def)
next
  case (3 c d cs)
  then show ?case by (auto simp: endswith_sep_def)
qed

lemma join_parts:
  assumes "\<forall>p \<in> set ps. p \<noteq> [] \<and> CHR ''/'' \<notin> set p" "ps \<noteq> []"
  shows "join a ps = dir_prefix a @ str_join ''/'' ps"
  using assms
proof (induction ps arbitrary: a)
  case Nil
  then show ?case by simp
next
  case (Cons p ps)
  from Cons.prems have p: "p \<noteq> []" "CHR ''/'' \<notin> set p" by auto
  then have nst: "\<not> startswith_sep p" by (cases p) (auto simp: startswith_sep_def)
  have step: "join_step a p = dir_prefix a @ p"
    using nst by (simp add: join_step_def dir_prefix_def)
  show ?case
  proof (cases ps)
    case Nil
    then show ?thesis using step by (simp add: join_def)
  next
    case (Cons q qs)
    have "last (dir_prefix a @ p) \<noteq> CHR ''/''"
      using p by (auto simp: last_append) (metis last_in_set)
    then have dp: "dir_prefix (dir_prefix a @ p) = dir_prefix a @ p @ ''/''"
      using p by (simp add: dir_prefix_def endswith_sep_def)
    have "join a (p # ps) = join (dir_prefix a @ p) ps"
      using step by (simp add: join_def)
    also have "\<dots> = dir_prefix (dir_prefix a @ p) @ str_join ''/'' ps"
      using Cons.IH [of "dir_prefix a @ p"] Cons.prems Cons by auto
    finally show ?thesis using dp Cons by simp
  qed
qed

lemma join_split:
  assumes "no_double_sep s" "s \<noteq> []" "hd s \<noteq> CHR ''/''" "last s \<noteq> CHR ''/''"
  shows "join a (split CHR ''/'' s) = dir_prefix a @ s"
proof -
  have "\<forall>p \<in> set (split CHR ''/'' s). p \<noteq> [] \<and> CHR ''/'' \<notin> set p"
    using split_parts_nonempty [OF assms] split_no_sep by metis
  then have "join a (split CHR ''/'' s) = dir_prefix a @ str_join ''/'' (split CHR ''/'' s)"
    by (rule join_parts) simp
  then show ?thesis by (simp add: str_join_split)
qed

lemma frozen_join:
  assumes "\<not> startswith_sep name"
  shows "join d [''share'', ''xml'', name @ ''.glade''] =
           dir_prefix d @ ''share/xml/'' @ name @ ''.glade''"
proof -
  have "\<not> startswith_sep (name @ ''.glade'')"
    using assms by (cases name) (auto simp: startswith_sep_def)
  then show ?thesis
    by (simp add: join_def join_step_def dir_prefix_def startswith_sep_def endswith_sep_def)
qed

lemma resource_name_ok:
  assumes "valid_relative name"
  shows "no_double_sep (''pympress/share/xml/'' @ name @ ''.glade'')"
proof -
  have "no_double_sep (name @ ''.glade'')"
    using assms by (simp add: no_double_sep_append valid_relative_def startswith_sep_def)
  moreover have "\<not> startswith_sep (name @ ''.glade'')"
    using assms by (cases name) (auto simp: startswith_sep_def valid_relative_def)
  ultimately have "no_double_sep (''pympress/share/xml/'' @ (name @ ''.glade''))"
    unfolding no_double_sep_append [of "''pympress/share/xml/''"] by simp
  then show ?thesis by simp
qed

lemma split_sep_free: "c \<notin> set x \<Longrightarrow> split c x = [x]"
  by (induction x) (auto simp: Let_def)

lemma split_append_sep: "c \<notin> set x \<Longrightarrow> split c (x @ c # s) = x # split c s"
  by (induction x) (auto simp: Let_def)

lemma split_str_join:
  assumes "\<forall>p \<in> set ps. c \<notin> set p" "ps \<noteq> []"
  shows "split c (str_join [c] ps) = ps"
  using assms
proof (induction ps)
  case Nil
  then show ?case by simp
next
  case (Cons x ps)
  show ?case
  proof (cases ps)
    case Nil
    then show ?thesis using Cons.prems by (simp add: split_sep_free)
  next
    case (Cons y ys)
    have "str_join [c] (x # ps) = x @ c # str_join [c] ps" using Cons by simp
    moreover have "split c (str_join [c] ps) = ps" using Cons.IH Cons.prems Cons by simp
    ultimately show ?thesis using Cons.prems by (simp add: split_append_sep)
  qed
qed

lemma get_resource_path_parts:
  assumes "py_os_name env \<noteq> ''nt''"
    and "\<forall>p \<in> set path_parts. p \<noteq> [] \<and> CHR ''/'' \<notin> set p" "path_parts \<noteq> []"
  shows "frozen env \<Longrightarrow> get_resource_path env path_parts =
           Inr (dir_prefix (dirname (executable env)) @ str_join ''/'' path_parts)"
    and "\<not> frozen env \<Longrightarrow> dist_location env = Some loc \<Longrightarrow> get_resource_path env path_parts =
           Inr (dir_prefix loc @ ''pympress/'' @ str_join ''/'' path_parts)"
proof -
  show "frozen env \<Longrightarrow> get_resource_path env path_parts =
           Inr (dir_prefix (dirname (executable env)) @ str_join ''/'' path_parts)"
    using assms(1)
    by (simp add: get_resource_path_def os_path_join_def os_path_dirname_def
          join_parts [OF assms(2,3)])
  let ?ps = "''pympress'' # path_parts"
  have ok: "\<forall>p \<in> set ?ps. p \<noteq> [] \<and> CHR ''/'' \<notin> set p" using assms(2) by simp
  then have sp: "split CHR ''/'' (str_join ''/'' ?ps) = ?ps"
    by (intro split_str_join) auto
  have ne: "str_join ''/'' ?ps \<noteq> []" using assms(3) by (cases path_parts) auto
  have j: "join loc ?ps = dir_prefix loc @ str_join ''/'' ?ps"
    by (rule join_parts [OF ok]) simp
  have sj: "str_join ''/'' ?ps = ''pympress/'' @ str_join ''/'' path_parts"
    using assms(3) by (cases path_parts) auto
  show "\<not> frozen env \<Longrightarrow> dist_location env = Some loc \<Longrightarrow> get_resource_path env path_parts =
           Inr (dir_prefix loc @ ''pympress/'' @ str_join ''/'' path_parts)"
  proof -
    assume "\<not> frozen env" "dist_location env = Some loc"
    then have "get_resource_path env path_parts =
        Inr (join loc (split CHR ''/'' (str_join ''/'' ?ps)))"
      using ne assms(1)
      by (simp add: get_resource_path_def resource_filename_def os_path_join_def
            del: str_join.simps)
    also have "\<dots> = Inr (dir_prefix loc @ str_join ''/'' ?ps)"
      unfolding sp j ..
    finally show ?thesis unfolding sj .
  qed
qed

lemma nt_plain_Cons: "nt_plain (c # cs) \<longleftrightarrow> \<not> nt_sep c \<and> c \<noteq> CHR '':'' \<and> nt_plain cs"
  by (simp add: nt_plain_def)

lemma nt_plain_no_slash: "nt_plain q \<Longrightarrow> CHR ''/'' \<notin> set q"
  by (induction q) (auto simp: nt_plain_def nt_sep_def)

lemma nt_plain_last: "nt_plain q \<Longrightarrow> q \<noteq> [] \<Longrightarrow> \<not> nt_sep (last q)"
  by (induction q) (auto simp: nt_plain_def)

lemma nt_splitdrive_plain:
  assumes "nt_plain q"
  shows "nt_splitdrive q = ([], q)"
proof (cases "length q \<ge> 2")
  case False
  then show ?thesis by (simp add: nt_splitdrive_def)
next
  case True
  then obtain a b r where q: "q = a # b # r"
    by (cases q; cases "tl q") auto
  have a: "a \<noteq> bslash" "a \<noteq> CHR ''/''" and b: "b \<noteq> CHR '':''" "b \<noteq> CHR ''/''"
    using assms q by (auto simp: nt_plain_def nt_sep_def)
  show ?thesis
    using a b by (simp add: nt_splitdrive_def q Let_def)
qed

lemma nt_join_step_plain:
  assumes "nt_plain q"
  shows "nt_join_step (rd, rp) q = (rd, nt_with_sep rp @ q)"
proof (cases q)
  case Nil
  then show ?thesis
    using nt_splitdrive_plain [OF assms] by (simp add: nt_join_step_def)
next
  case (Cons c cs)
  then have "\<not> nt_sep (hd q)" using assms by (simp add: nt_plain_def)
  then show ?thesis
    by (simp add: nt_join_step_def nt_splitdrive_plain [OF assms])
qed

lemma nt_foldl_plain:
  assumes "\<forall>q \<in> set ps. q \<noteq> [] \<and> nt_plain q" "ps \<noteq> []"
  shows "foldl nt_join_step (rd, rp) ps = (rd, nt_with_sep rp @ str_join [bslash] ps)"
  using assms
proof (induction ps arbitrary: rp)
  case Nil
  then show ?case by simp
next
  case (Cons q ps)
  from Cons.prems have q: "q \<noteq> []" "nt_plain q" by auto
  have step: "nt_join_step (rd, rp) q = (rd, nt_with_sep rp @ q)"
    by (rule nt_join_step_plain [OF q(2)])
  show ?case
  proof (cases ps)
    case Nil
    then show ?thesis using step by simp
  next
    case (Cons q' qs)
    have "\<not> nt_sep (last (nt_with_sep rp @ q))"
      using q nt_plain_last by simp
    then have ws: "nt_with_sep (nt_with_sep rp @ q) = nt_with_sep rp @ q @ [bslash]"
      using q(1) by (simp add: nt_with_sep_def [of "nt_with_sep rp @ q"])
    have "foldl nt_join_step (rd, rp) (q # ps) = foldl nt_join_step (rd, nt_with_sep rp @ q) ps"
      using step by simp
    also have "\<dots> = (rd, nt_with_sep (nt_with_sep rp @ q) @ str_join [bslash] ps)"
      using Cons.IH [of "nt_with_sep rp @ q"] Cons.prems Cons by auto
    finally show ?thesis using ws Cons by simp
  qed
qed

lemma str_join_nonempty: "ps \<noteq> [] \<Longrightarrow> hd ps \<noteq> [] \<Longrightarrow> str_join sep ps \<noteq> []"
  by (cases ps; cases "tl ps") auto

lemma str_join_hd: "ps \<noteq> [] \<Longrightarrow> hd ps \<noteq> [] \<Longrightarrow> hd (str_join sep ps) = hd (hd ps)"
  by (cases ps; cases "tl ps") auto

lemma nt_join_plain:
  assumes "\<forall>q \<in> set ps. q \<noteq> [] \<and> nt_plain q" "ps \<noteq> []"
  shows "nt_join d ps = nt_dir_prefix d @ str_join [bslash] ps"
proof -
  obtain rd rp where sd: "nt_splitdrive d = (rd, rp)" by (cases "nt_splitdrive d")
  let ?J = "str_join [bslash] ps"
  have h: "hd ps \<noteq> []" "nt_plain (hd ps)" using assms by (cases ps; auto)+
  have J: "?J \<noteq> []" using assms(2) h(1) by (rule str_join_nonempty)
  have "hd ?J = hd (hd ps)" using assms(2) h(1) by (rule str_join_hd)
  then have hJ: "\<not> nt_sep (hd ?J)" using h by (cases "hd ps") (auto simp: nt_plain_def)
  have f: "foldl nt_join_step (rd, rp) ps = (rd, nt_with_sep rp @ ?J)"
    by (rule nt_foldl_plain [OF assms])
  let ?R = "nt_with_sep rp @ ?J"
  have res: "nt_join d ps =
      (if ?R \<noteq> [] \<and> \<not> nt_sep (hd ?R) \<and> rd \<noteq> [] \<and> last rd \<noteq> CHR '':''
       then rd @ [bslash] @ ?R else rd @ ?R)"
    by (simp add: nt_join_def sd f)
  show ?thesis
  proof (cases "rp = []")
    case True
    then have "?R = ?J" by (simp add: nt_with_sep_def)
    then show ?thesis
      unfolding res using J hJ True by (simp add: nt_dir_prefix_def sd)
  next
    case False
    then have "hd ?R = hd rp" "?R \<noteq> []" by (simp_all add: nt_with_sep_def)
    then show ?thesis
      unfolding res using False by (simp add: nt_dir_prefix_def sd)
  qed
qed

lemma nt_get_resource_path_parts:
  assumes "py_os_name env = ''nt''"
    and "\<forall>q \<in> set path_parts. q \<noteq> [] \<and> nt_plain q" "path_parts \<noteq> []"
  shows "frozen env \<Longrightarrow> get_resource_path env path_parts =
           Inr (nt_dir_prefix (nt_dirname (executable env)) @ nt_path path_parts)"
    and "\<not> frozen env \<Longrightarrow> dist_location env = Some loc \<Longrightarrow> get_resource_path env path_parts =
           Inr (nt_dir_prefix loc @ nt_path (''pympress'' # path_parts))"
proof -
  show "frozen env \<Longrightarrow> get_resource_path env path_parts =
           Inr (nt_dir_prefix (nt_dirname (executable env)) @ nt_path path_parts)"
    using assms(1)
    by (simp add: get_resource_path_def os_path_join_def os_path_dirname_def nt_path_def
          nt_join_plain [OF assms(2,3)])
  let ?ps = "''pympress'' # path_parts"
  have pp: "nt_plain ''pympress''" by (simp add: nt_plain_def nt_sep_def bslash_def)
  have ok: "\<forall>q \<in> set ?ps. q \<noteq> [] \<and> nt_plain q" using assms(2) pp by simp
  have "\<forall>q \<in> set ?ps. CHR ''/'' \<notin> set q" using ok nt_plain_no_slash by blast
  then have sp: "split CHR ''/'' (str_join ''/'' ?ps) = ?ps"
    by (intro split_str_join) auto
  have ne: "str_join ''/'' ?ps \<noteq> []" using assms(3) by (cases path_parts) auto
  have j: "nt_join loc ?ps = nt_dir_prefix loc @ str_join [bslash] ?ps"
    by (rule nt_join_plain [OF ok]) simp
  show "\<not> frozen env \<Longrightarrow> dist_location env = Some loc \<Longrightarrow> get_resource_path env path_parts =
           Inr (nt_dir_prefix loc @ nt_path (''pympress'' # path_parts))"
  proof -
    assume "\<not> frozen env" "dist_location env = Some loc"
    then have "get_resource_path env path_parts =
        Inr (nt_join loc (split CHR ''/'' (str_join ''/'' ?ps)))"
      using ne assms(1)
      by (simp add: get_resource_path_def resource_filename_def os_path_join_def
            del: str_join.simps)
    also have "\<dots> = Inr (nt_dir_prefix loc @ str_join [bslash] ?ps)"
      unfolding sp j ..
    finally show ?thesis unfolding nt_path_def .
  qed
qed

lemma suffix_nt_path: "suffix (nt_path ps) (nt_path (q # ps))"
  by (cases ps) (auto simp: nt_path_def suffix_def)

text \<open>
  Claim C8, as the code has it. \<^verbatim>\<open>get_ui_resource_file(name)\<close> joins the directory,
  \<^verbatim>\<open>share\<close>, \<^verbatim>\<open>xml\<close> and \<^verbatim>\<open>name + '.glade'\<close> with the separator of the host's
  \<^verbatim>\<open>os.path\<close>. On a POSIX host, for every valid relative resource name, the path
  returned ends in \<^verbatim>\<open>share/xml/<name>.glade\<close>; and every path that
  \<^verbatim>\<open>__get_resource_path\<close> returns for parts that are file or directory names ends in
  those parts, joined by the slash. On Windows, for every name that is a single
  component, the path returned ends in the same three components joined by backslashes.
  On both, the frozen branch gives the path below the directory of the executable, the
  other branch, with the distribution installed at \<open>loc\<close>, the path below the package
  \<^verbatim>\<open>pympress\<close> in \<open>loc\<close>.
\<close>

theorem ui_resource_file_path:
  "(py_os_name env \<noteq> ''nt'' \<and> valid_relative name \<longrightarrow>
      (frozen env \<longrightarrow>
         get_ui_resource_file env name =
           Inr (dir_prefix (dirname (executable env)) @ ''share/xml/'' @ name @ ''.glade''))
    \<and> (\<not> frozen env \<and> dist_location env = Some loc \<longrightarrow>
         get_ui_resource_file env name =
           Inr (dir_prefix loc @ ''pympress/share/xml/'' @ name @ ''.glade''))
    \<and> (\<forall>p. get_ui_resource_file env name = Inr p \<longrightarrow>
         suffix (''share/xml/'' @ name @ ''.glade'') p))
   \<and> (py_os_name env \<noteq> ''nt'' \<longrightarrow>
       (\<forall>path_parts p. path_parts \<noteq> []
            \<and> (\<forall>q \<in> set path_parts. q \<noteq> [] \<and> CHR ''/'' \<notin> set q)
            \<and> get_resource_path env path_parts = Inr p \<longrightarrow>
          suffix (str_join ''/'' path_parts) p))
   \<and> (py_os_name env = ''nt'' \<and> nt_plain name \<longrightarrow>
      (frozen env \<longrightarrow>
         get_ui_resource_file env name =
           Inr (nt_dir_prefix (nt_dirname (executable env))
                @ nt_path [''share'', ''xml'', name @ ''.glade'']))
    \<and> (\<not> frozen env \<and> dist_location env = Some loc \<longrightarrow>
         get_ui_resource_file env name =
           Inr (nt_dir_prefix loc @ nt_path [''pympress'', ''share'', ''xml'', name @ ''.glade'']))
    \<and> (\<forall>p. get_ui_resource_file env name = Inr p \<longrightarrow>
         suffix (nt_path [''share'', ''xml'', name @ ''.glade'']) p))"
proof -
  let ?s = "''pympress/share/xml/'' @ name @ ''.glade''"
  let ?ps = "[''share'', ''xml'', name @ ''.glade'']"
  have P1: "(frozen env \<longrightarrow>
         get_ui_resource_file env name =
           Inr (dir_prefix (dirname (executable env)) @ ''share/xml/'' @ name @ ''.glade''))
    \<and> (\<not> frozen env \<and> dist_location env = Some loc \<longrightarrow>
         get_ui_resource_file env name = Inr (dir_prefix loc @ ?s))
    \<and> (\<forall>p. get_ui_resource_file env name = Inr p \<longrightarrow>
         suffix (''share/xml/'' @ name @ ''.glade'') p)"
    if px: "py_os_name env \<noteq> ''nt''" and v: "valid_relative name"
  proof -
    have nst: "\<not> startswith_sep name" using v by (simp add: valid_relative_def)
    have fr: "frozen env \<Longrightarrow> get_ui_resource_file env name =
        Inr (dir_prefix (dirname (executable env)) @ ''share/xml/'' @ name @ ''.glade'')"
      using px
      by (simp add: get_ui_resource_file_def get_resource_path_def os_path_join_def
            os_path_dirname_def frozen_join [OF nst])
    have js: "join a (split CHR ''/'' ?s) = dir_prefix a @ ?s" for a
      by (rule join_split) (use resource_name_ok [OF v] in simp_all)
    have nf: "get_ui_resource_file env name = Inr (dir_prefix l @ ?s)"
      if "\<not> frozen env" "dist_location env = Some l" for l
      using that js [of l] px
      by (simp add: get_ui_resource_file_def get_resource_path_def resource_filename_def
            os_path_join_def)
    have suf: "suffix (''share/xml/'' @ name @ ''.glade'') p"
      if p: "get_ui_resource_file env name = Inr p" for p
    proof (cases "frozen env")
      case True
      with fr p have "p = dir_prefix (dirname (executable env)) @ ''share/xml/'' @ name @ ''.glade''"
        by simp
      then show ?thesis by (simp add: suffix_def)
    next
      case False
      with p obtain l where l: "dist_location env = Some l"
        by (cases "dist_location env")
           (auto simp: get_ui_resource_file_def get_resource_path_def resource_filename_def)
      from nf [OF False l] p
      have "p = (dir_prefix l @ ''pympress/'') @ ''share/xml/'' @ name @ ''.glade''"
        by simp
      then show ?thesis unfolding suffix_def by blast
    qed
    show ?thesis using fr nf suf by blast
  qed
  have P2: "suffix (str_join ''/'' path_parts) p"
    if px: "py_os_name env \<noteq> ''nt''"
      and ps: "path_parts \<noteq> []" "\<forall>q \<in> set path_parts. q \<noteq> [] \<and> CHR ''/'' \<notin> set q"
      and p: "get_resource_path env path_parts = Inr p" for path_parts p
  proof (cases "frozen env")
    case True
    from get_resource_path_parts(1) [OF px ps(2) ps(1) True] p show ?thesis
      by (simp add: suffix_def)
  next
    case False
    with p obtain l where l: "dist_location env = Some l"
      by (cases "dist_location env") (auto simp: get_resource_path_def resource_filename_def)
    from get_resource_path_parts(2) [OF px ps(2) ps(1) False l] p
    have "p = (dir_prefix l @ ''pympress/'') @ str_join ''/'' path_parts" by simp
    then show ?thesis unfolding suffix_def by blast
  qed
  have P3: "(frozen env \<longrightarrow>
         get_ui_resource_file env name =
           Inr (nt_dir_prefix (nt_dirname (executable env)) @ nt_path ?ps))
    \<and> (\<not> frozen env \<and> dist_location env = Some loc \<longrightarrow>
         get_ui_resource_file env name = Inr (nt_dir_prefix loc @ nt_path (''pympress'' # ?ps)))
    \<and> (\<forall>p. get_ui_resource_file env name = Inr p \<longrightarrow> suffix (nt_path ?ps) p)"
    if nt: "py_os_name env = ''nt''" and pl: "nt_plain name"
  proof -
    have "nt_plain ''share''" "nt_plain ''xml''" "nt_plain (name @ ''.glade'')"
      using pl by (simp_all add: nt_plain_def nt_sep_def bslash_def)
    then have ok: "\<forall>q \<in> set ?ps. q \<noteq> [] \<and> nt_plain q" by simp
    have ne: "?ps \<noteq> []" by simp
    have fr: "get_ui_resource_file env name =
        Inr (nt_dir_prefix (nt_dirname (executable env)) @ nt_path ?ps)" if "frozen env"
      using nt_get_resource_path_parts(1) [OF nt ok ne that]
      by (simp add: get_ui_resource_file_def)
    have nf: "get_ui_resource_file env name = Inr (nt_dir_prefix l @ nt_path (''pympress'' # ?ps))"
      if "\<not> frozen env" "dist_location env = Some l" for l
      using nt_get_resource_path_parts(2) [OF nt ok ne that]
      by (simp add: get_ui_resource_file_def)
    have suf: "suffix (nt_path ?ps) p" if p: "get_ui_resource_file env name = Inr p" for p
    proof (cases "frozen env")
      case True
      with fr p have "p = nt_dir_prefix (nt_dirname (executable env)) @ nt_path ?ps" by simp
      then show ?thesis by (simp add: suffix_def)
    next
      case False
      with p obtain l where l: "dist_location env = Some l"
        by (cases "dist_location env")
           (auto simp: get_ui_resource_file_def get_resource_path_def resource_filename_def)
      from nf [OF False l] p have "p = nt_dir_prefix l @ nt_path (''pympress'' # ?ps)" by simp
      moreover have "suffix (nt_path ?ps) (nt_path (''pympress'' # ?ps))"
        by (rule suffix_nt_path)
      ultimately show ?thesis by (simp add: suffix_appendI del: append.simps)
    qed
    show ?thesis using fr nf suf by blast
  qed
  show ?thesis using P1 P2 P3 by blast
qed

theorem ui_resource_file_path_witness:
  "py_os_name example_frozen \<noteq> ''nt'' \<and> valid_relative ''presenter''
   \<and> get_ui_resource_file example_frozen ''presenter'' =
       Inr ''/opt/pympress/share/xml/presenter.glade''
   \<and> get_ui_resource_file example_installed ''presenter'' =
       Inr ''/usr/lib/python3/site-packages/pympress/share/xml/presenter.glade''
   \<and> py_os_name example_frozen_windows = ''nt'' \<and> nt_plain ''presenter''
   \<and> get_ui_resource_file example_frozen_windows ''presenter'' =
       Inr (nt_path [''C:'', ''Program Files'', ''pympress'', ''share'', ''xml'', ''presenter.glade''])
   \<and> get_ui_resource_file example_installed_windows ''presenter'' =
       Inr (nt_path [''C:'', ''Python'', ''Lib'', ''site-packages'', ''pympress'', ''share'', ''xml'',
                     ''presenter.glade''])"
proof -
  have v: "valid_relative ''presenter''" "nt_plain ''presenter''" by code_simp+
  have o: "py_os_name example_frozen \<noteq> ''nt''" "py_os_name example_installed \<noteq> ''nt''"
    "py_os_name example_frozen_windows = ''nt''" "py_os_name example_installed_windows = ''nt''"
    by (simp_all add: example_frozen_def example_installed_def example_frozen_windows_def
          example_installed_windows_def)
  have f: "frozen example_frozen" "\<not> frozen example_installed"
    "dist_location example_installed = Some ''/usr/lib/python3/site-packages''"
    "frozen example_frozen_windows" "\<not> frozen example_installed_windows"
    "dist_location example_installed_windows
       = Some (nt_path [''C:'', ''Python'', ''Lib'', ''site-packages''])"
    by (simp_all add: example_frozen_def example_installed_def example_frozen_windows_def
          example_installed_windows_def)
  have d: "dir_prefix (dirname (executable example_frozen)) = ''/opt/pympress/''"
    "dir_prefix ''/usr/lib/python3/site-packages'' = ''/usr/lib/python3/site-packages/''"
    by code_simp+
  have n: "nt_dir_prefix (nt_dirname (executable example_frozen_windows))
             @ nt_path [''share'', ''xml'', ''presenter'' @ ''.glade'']
           = nt_path [''C:'', ''Program Files'', ''pympress'', ''share'', ''xml'', ''presenter.glade'']"
    "nt_dir_prefix (nt_path [''C:'', ''Python'', ''Lib'', ''site-packages''])
             @ nt_path [''pympress'', ''share'', ''xml'', ''presenter'' @ ''.glade'']
           = nt_path [''C:'', ''Python'', ''Lib'', ''site-packages'', ''pympress'', ''share'', ''xml'',
                     ''presenter.glade'']"
    by code_simp+
  from ui_resource_file_path [of example_frozen "''presenter''"]
  have a1: "get_ui_resource_file example_frozen ''presenter'' =
      Inr (dir_prefix (dirname (executable example_frozen)) @ ''share/xml/'' @ ''presenter'' @ ''.glade'')"
    using v o f by blast
  from ui_resource_file_path [of example_installed "''presenter''" "''/usr/lib/python3/site-packages''"]
  have a2: "get_ui_resource_file example_installed ''presenter'' =
      Inr (dir_prefix ''/usr/lib/python3/site-packages'' @ ''pympress/share/xml/'' @ ''presenter'' @ ''.glade'')"
    using v o f by blast
  from ui_resource_file_path [of example_frozen_windows "''presenter''"]
  have a3: "get_ui_resource_file example_frozen_windows ''presenter'' =
      Inr (nt_dir_prefix (nt_dirname (executable example_frozen_windows))
             @ nt_path [''share'', ''xml'', ''presenter'' @ ''.glade''])"
    using v o f by blast
  from ui_resource_file_path [of example_installed_windows "''presenter''"
         "nt_path [''C:'', ''Python'', ''Lib'', ''site-packages'']"]
  have a4: "get_ui_resource_file example_installed_windows ''presenter'' =
      Inr (nt_dir_prefix (nt_path [''C:'', ''Python'', ''Lib'', ''site-packages''])
             @ nt_path [''pympress'', ''share'', ''xml'', ''presenter'' @ ''.glade''])"
    using v o f by blast
  show ?thesis
    unfolding a1 a2 a3 a4 d n using v o by simp
qed

theorem ui_resource_file_path_counterexample:
  "valid_relative ''presenter''
   \<and> get_ui_resource_file example_frozen_windows ''presenter'' =
       Inr (nt_path [''C:'', ''Program Files'', ''pympress'', ''share'', ''xml'', ''presenter.glade''])
   \<and> \<not> suffix ''share/xml/presenter.glade''
         (nt_path [''C:'', ''Program Files'', ''pympress'', ''share'', ''xml'', ''presenter.glade''])
   \<and> get_ui_resource_file example_installed_windows ''presenter'' =
       Inr (nt_path [''C:'', ''Python'', ''Lib'', ''site-packages'', ''pympress'', ''share'', ''xml'',
                     ''presenter.glade''])
   \<and> \<not> suffix ''share/xml/presenter.glade''
         (nt_path [''C:'', ''Python'', ''Lib'', ''site-packages'', ''pympress'', ''share'', ''xml'',
                   ''presenter.glade''])"
  by code_simp

lemma load_icons_loop_acc:
  "load_icons_loop env names (icons, lg) =
     (icons @ List.map_filter (\<lambda>n. case get_icon_pixbuf env n of Inr pb \<Rightarrow> Some pb | Inl e \<Rightarrow> None) names,
      lg @ List.map_filter (\<lambda>n. case get_icon_pixbuf env n of
                 Inl e \<Rightarrow> Some (LogException ''Error loading icons'' e) | Inr pb \<Rightarrow> None) names)"
proof (induction names arbitrary: icons lg)
  case Nil
  show ?case by (simp add: List.map_filter_simps)
next
  case (Cons n names)
  show ?case
    by (cases "get_icon_pixbuf env n") (simp_all add: Cons.IH List.map_filter_simps)
qed

text \<open>
  Claim C10. When the listing of the icons succeeds, \<^verbatim>\<open>load_icons\<close> returns normally,
  whatever \<^verbatim>\<open>get_icon_pixbuf\<close> raises for the single icons: the list returned holds
  exactly the icons that loaded, in the order of the listing, and every icon that failed
  is skipped with one record \<^verbatim>\<open>Error loading icons\<close> written to the logger.
\<close>

theorem load_icons_skips_failures:
  assumes "list_icons env = Inr names"
  shows "load_icons env =
     Inr (List.map_filter (\<lambda>n. case get_icon_pixbuf env n of Inr pb \<Rightarrow> Some pb | Inl e \<Rightarrow> None) names,
          List.map_filter (\<lambda>n. case get_icon_pixbuf env n of
                 Inl e \<Rightarrow> Some (LogException ''Error loading icons'' e) | Inr pb \<Rightarrow> None) names)"
  using assms by (simp add: load_icons_def load_icons_loop_acc)

theorem load_icons_skips_failures_witness:
  "list_icons example_frozen = Inr [''pympress-16.png'', ''pympress-32.PNG'']
   \<and> load_icons example_frozen =
       Inr ([16], [LogException ''Error loading icons''
                     (GLibError ''/opt/pympress/share/pixmaps/pympress-32.PNG'')])"
proof -
  have h: "list_icons example_frozen = Inr [''pympress-16.png'', ''pympress-32.PNG'']"
    by code_simp
  have g: "get_icon_pixbuf example_frozen ''pympress-16.png'' = Inr 16"
    "get_icon_pixbuf example_frozen ''pympress-32.PNG'' =
       Inl (GLibError ''/opt/pympress/share/pixmaps/pympress-32.PNG'')"
    by code_simp+
  from load_icons_skips_failures [OF h] show ?thesis
    using h g by (simp add: List.map_filter_simps)
qed

lemma rfind_last_sep:
  "c \<notin> set f \<Longrightarrow> rfind c (d @ c # f) = int (length d)"
proof -
  assume "c \<notin> set f"
  then have "dropWhile (\<lambda>x. x \<noteq> c) (rev f @ c # rev d) = c # rev d"
    by (auto simp add: dropWhile_append3)
  then show ?thesis by (simp add: rfind_def)
qed

lemma lower_char_dot: "lower_char c = CHR ''.'' \<longleftrightarrow> c = CHR ''.''"
proof
  assume a: "lower_char c = CHR ''.''"
  show "c = CHR ''.''"
  proof (rule ccontr)
    assume n: "c \<noteq> CHR ''.''"
    with a have r: "65 \<le> (of_char c :: nat)" "(of_char c :: nat) \<le> 90" "char_of ((of_char c :: nat) + 32) = CHR ''.''"
      by (auto simp: lower_char_def Let_def split: if_splits)
    from r(3) have "(of_char (char_of ((of_char c :: nat) + 32) :: char) :: nat) = of_char CHR ''.''" by simp
    then have "((of_char c :: nat) + 32) mod 256 = 46" by (simp add: of_char_of)
    with r(1,2) show False by simp
  qed
next
  assume "c = CHR ''.''" then show "lower_char c = CHR ''.''" by (simp add: lower_char_def)
qed

lemma splitext_loop_append: "fst (splitext_loop p k d) @ snd (splitext_loop p k d) = p"
proof (induction p k d rule: splitext_loop.induct)
  case (1 p filenameIndex dotIndex)
  then show ?case by (subst (1 2) splitext_loop.simps) simp
qed

lemma splitext_append: "fst (splitext p) @ snd (splitext p) = p"
  by (simp add: splitext_def Let_def splitext_loop_append)

lemma rfind_absent: "c \<notin> set p \<Longrightarrow> rfind c p = - 1"
proof -
  assume "c \<notin> set p"
  then have "dropWhile (\<lambda>x. x \<noteq> c) (rev p) = []" by auto
  then show ?thesis by (simp add: rfind_def)
qed

lemma splitext_png:
  assumes "CHR ''/'' \<notin> set (stem @ ext)" "lower ext = ''.png''" "stem \<noteq> []" "hd stem \<noteq> CHR ''.''"
  shows "splitext (stem @ ext) = (stem, ext)"
proof -
  from assms(2) obtain a b c d where ext: "ext = [a, b, c, d]"
    and l: "lower_char a = CHR ''.''" "lower_char b = CHR ''p''" "lower_char c = CHR ''n''"
           "lower_char d = CHR ''g''"
    by (auto simp: lower_def)
  have a: "a = CHR ''.''" using l(1) by (simp add: lower_char_dot)
  have nd: "CHR ''.'' \<notin> set [b, c, d]"
    using l(2,3,4) by (auto simp: lower_char_def)
  have dot: "rfind CHR ''.'' (stem @ ext) = int (length stem)"
    unfolding ext a by (rule rfind_last_sep [OF nd])
  have sep: "rfind CHR ''/'' (stem @ ext) = - 1" by (rule rfind_absent [OF assms(1)])
  have first: "take 1 (drop 0 (stem @ ext)) \<noteq> ''.''"
    using assms(3,4) by (cases stem) auto
  have "splitext_loop (stem @ ext) 0 (length stem) = (stem, ext)"
    using first assms(3) by (subst splitext_loop.simps) simp
  then show ?thesis by (simp add: splitext_def dot sep)
qed

lemma is_icon_iff:
  assumes "CHR ''/'' \<notin> set i"
  shows "is_icon i \<longleftrightarrow>
           prefix ''pympress-'' i \<and> (\<exists>stem ext. i = stem @ ext \<and> lower ext = ''.png'')"
proof
  assume ic: "is_icon i"
  then have "take 9 i = ''pympress-''" by (simp add: is_icon_def)
  then have "prefix ''pympress-'' i" by (metis take_is_prefix)
  moreover have "i = fst (splitext i) @ snd (splitext i)" by (simp add: splitext_append)
  moreover have "lower (snd (splitext i)) = ''.png''" using ic by (simp add: is_icon_def)
  ultimately show "prefix ''pympress-'' i \<and> (\<exists>stem ext. i = stem @ ext \<and> lower ext = ''.png'')"
    by blast
next
  assume r: "prefix ''pympress-'' i \<and> (\<exists>stem ext. i = stem @ ext \<and> lower ext = ''.png'')"
  then obtain stem ext where se: "i = stem @ ext" "lower ext = ''.png''" by blast
  from r obtain rest where p: "i = ''pympress-'' @ rest" by (auto simp: prefix_def)
  have t: "take 9 i = ''pympress-''" using p by simp
  have "stem \<noteq> [] \<and> hd stem \<noteq> CHR ''.''"
  proof (cases stem)
    case Nil
    with se have "lower i = ''.png''" by simp
    with p show ?thesis by (simp add: lower_def)
  next
    case (Cons x xs)
    with se p have "x = CHR ''p''" by simp
    with Cons show ?thesis by simp
  qed
  then have "splitext (stem @ ext) = (stem, ext)"
    using splitext_png [of stem ext] assms se by simp
  then show "is_icon i" using se t by (simp add: is_icon_def)
qed

text \<open>
  Claim C9. For every list of entries that the resource listing returns, every name
  that \<^verbatim>\<open>list_icons\<close> returns is one of the entries, has the extension \<^verbatim>\<open>.png\<close> (of
  \<^verbatim>\<open>os.path.splitext\<close>, compared in lower case) and starts with the nine characters
  \<^verbatim>\<open>pympress-\<close>; every entry with both properties is returned; and the order of the
  entries is kept: the result is the entries filtered by the two conditions. For an
  entry without a separator the two conditions say that it starts with \<^verbatim>\<open>pympress-\<close>
  and ends in \<^verbatim>\<open>.png\<close>, in any mix of upper and lower case.
\<close>

theorem list_icons_filter:
  assumes "get_resource_list env [''share'', ''pixmaps''] = Inr entries"
  shows "list_icons env =
           Inr [i \<leftarrow> entries. lower (snd (splitext i)) = ''.png'' \<and> take 9 i = ''pympress-'']
       \<and> length ''pympress-'' = 9
       \<and> (\<forall>names. list_icons env = Inr names \<longrightarrow>
            (\<forall>n \<in> set names. n \<in> set entries \<and> lower (snd (splitext n)) = ''.png''
                 \<and> prefix ''pympress-'' n)
          \<and> (\<forall>i \<in> set entries. lower (snd (splitext i)) = ''.png'' \<and> prefix ''pympress-'' i
                 \<longrightarrow> i \<in> set names)
          \<and> subseq names entries
          \<and> (\<forall>i \<in> set entries. CHR ''/'' \<notin> set i \<longrightarrow>
                (i \<in> set names \<longleftrightarrow>
                   prefix ''pympress-'' i \<and> (\<exists>stem ext. i = stem @ ext \<and> lower ext = ''.png''))))"
proof -
  have pre: "take 9 i = ''pympress-'' \<longleftrightarrow> prefix ''pympress-'' i" for i :: string
  proof
    assume "take 9 i = ''pympress-''"
    then show "prefix ''pympress-'' i" by (metis take_is_prefix)
  next
    assume "prefix ''pympress-'' i"
    then obtain r where "i = ''pympress-'' @ r" by (auto simp: prefix_def)
    then show "take 9 i = ''pympress-''" by simp
  qed
  have eq: "list_icons env =
     Inr [i \<leftarrow> entries. lower (snd (splitext i)) = ''.png'' \<and> take 9 i = ''pympress-'']"
    using assms by (simp add: list_icons_def is_icon_def[abs_def])
  have ch: "i \<in> set [i \<leftarrow> entries. lower (snd (splitext i)) = ''.png'' \<and> take 9 i = ''pympress-'']
      \<longleftrightarrow> prefix ''pympress-'' i \<and> (\<exists>stem ext. i = stem @ ext \<and> lower ext = ''.png'')"
    if "i \<in> set entries" "CHR ''/'' \<notin> set i" for i
    using that is_icon_iff [of i] by (simp add: is_icon_def)
  show ?thesis
    unfolding eq using pre ch by auto
qed

theorem list_icons_filter_witness:
  "get_resource_list example_frozen [''share'', ''pixmaps''] =
     Inr [''pympress-16.png'', ''README'', ''pympress-32.PNG'', ''logo.png'']
   \<and> list_icons example_frozen = Inr [''pympress-16.png'', ''pympress-32.PNG'']"
proof -
  have h: "get_resource_list example_frozen [''share'', ''pixmaps''] =
     Inr [''pympress-16.png'', ''README'', ''pympress-32.PNG'', ''logo.png'']"
    by code_simp
  have e: "[i \<leftarrow> [''pympress-16.png'', ''README'', ''pympress-32.PNG'', ''logo.png''].
             lower (snd (splitext i)) = ''.png'' \<and> take 9 i = ''pympress-'']
           = [''pympress-16.png'', ''pympress-32.PNG'']"
    by code_simp
  from list_icons_filter [OF h] have "list_icons example_frozen =
     Inr [i \<leftarrow> [''pympress-16.png'', ''README'', ''pympress-32.PNG'', ''logo.png''].
             lower (snd (splitext i)) = ''.png'' \<and> take 9 i = ''pympress-'']"
    by blast
  with h e show ?thesis by simp
qed

subsection \<open>Screensaver controller\<close>

lemma read_enabled:
  "read_dpms_status
     [''Screen Saver:\<newline>'',
      ''  prefer blanking:  yes    allow exposures:  yes\<newline>'',
      ''  timeout:  600    cycle:  600\<newline>'',
      ''DPMS (Energy Star):\<newline>'',
      ''  Standby: 600    Suspend: 600    Off: 600\<newline>'',
      ''  DPMS is Enabled\<newline>''] = ''Enabled''"
  by code_simp

lemma read_disabled:
  "read_dpms_status
     [''Screen Saver:\<newline>'',
      ''  prefer blanking:  yes    allow exposures:  yes\<newline>'',
      ''  timeout:  600    cycle:  600\<newline>'',
      ''DPMS (Energy Star):\<newline>'',
      ''  Standby: 600    Suspend: 600    Off: 600\<newline>'',
      ''  DPMS is Disabled\<newline>''] = ''Disabled''"
  by code_simp

lemma read_xset_q:
  "read_dpms_status (mock_popen_readlines ''xset q'' s) =
     (if display_open s \<and> dpms s then ''Enabled'' else ''Disabled'')"
proof (cases "display_open s")
  case True
  then show ?thesis
    by (cases "dpms s")
       (simp_all add: mock_popen_readlines_def xset_q_lines_def read_enabled read_disabled
          del: read_dpms_status.simps)
next
  case False
  then show ?thesis by (simp add: mock_popen_readlines_def xset_q_lines_def)
qed

lemma strip_prefix_append [simp]: "strip_prefix p (p @ x) = Some x"
  by (simp add: strip_prefix_def)

lemma mock_system_suspend:
  "mock_system (''xdg-screensaver suspend '' @ x) s =
     (if display_open s then (0, s\<lparr>xss_suspended := insert x (xss_suspended s)\<rparr>) else (256, s))"
  using strip_prefix_append [of "''xdg-screensaver suspend ''" x]
  by (simp add: mock_system_def del: strip_prefix_append)

lemma mock_system_resume:
  "mock_system (''xdg-screensaver resume '' @ x) s =
     (if display_open s then (0, s\<lparr>xss_suspended := xss_suspended s - {x}\<rparr>) else (256, s))"
proof -
  have "strip_prefix ''xdg-screensaver suspend '' (''xdg-screensaver resume '' @ x) = None"
    by (simp add: strip_prefix_def)
  then show ?thesis
    using strip_prefix_append [of "''xdg-screensaver resume ''" x]
    by (simp add: mock_system_def del: strip_prefix_append)
qed

lemma mock_system_xset:
  "mock_system ''xset -dpms'' s = (if display_open s then (0, s\<lparr>dpms := False\<rparr>) else (256, s))"
  "mock_system ''xset +dpms'' s = (if display_open s then (0, s\<lparr>dpms := True\<rparr>) else (256, s))"
  by (simp_all add: mock_system_def)

lemma posix_disable:
  "set_screensaver_posix True win w =
     (let x = str_nat (get_xid win); s = opsys w in
      if display_open s then
        (None, w\<lparr>dpms_was_enabled := PyBool (dpms s),
                 opsys := s\<lparr>xss_suspended := insert x (xss_suspended s), dpms := False\<rparr>,
                 trace := trace w @ [OsSystem (''xdg-screensaver suspend '' @ x), OsPopen ''xset q'']
                            @ (if dpms s then [OsSystem ''xset -dpms''] else [])\<rparr>)
      else
        (None, w\<lparr>dpms_was_enabled := PyBool False,
                 trace := trace w @ [OsSystem (''xdg-screensaver suspend '' @ x), OsPopen ''xset q''],
                 logged := logged w @ [LogWarning (''Could not set screensaver status: got status '' @ str_nat 256)]\<rparr>))"
  using mock_system_suspend [of "str_nat (get_xid win)" "opsys w"]
  by (simp add: set_screensaver_posix_def os_system_def mock_system_xset
        os_popen_readlines_def read_xset_q warn_status_def logger_warning_def Let_def)

lemma posix_enable:
  "set_screensaver_posix False win w =
     (let x = str_nat (get_xid win); s = opsys w in
      if display_open s then
        (None, w\<lparr>opsys := s\<lparr>xss_suspended := xss_suspended s - {x},
                              dpms := (if truthy (dpms_was_enabled w) then True else dpms s)\<rparr>,
                 trace := trace w @ [OsSystem (''xdg-screensaver resume '' @ x)]
                            @ (if truthy (dpms_was_enabled w) then [OsSystem ''xset +dpms''] else [])\<rparr>)
      else
        (None, w\<lparr>trace := trace w @ [OsSystem (''xdg-screensaver resume '' @ x)]
                            @ (if truthy (dpms_was_enabled w) then [OsSystem ''xset +dpms''] else []),
                 logged := logged w @ [LogWarning (''Could not set screensaver status: got status '' @ str_nat 256)]
                     @ (if truthy (dpms_was_enabled w)
                        then [LogWarning (''Could not enable DPMS screen blanking: got status '' @ str_nat 256)]
                        else [])\<rparr>))"
  using mock_system_resume [of "str_nat (get_xid win)" "opsys w"]
  by (simp add: set_screensaver_posix_def os_system_def mock_system_xset
        warn_status_def logger_warning_def Let_def)

lemma windows_enable_none:
  assumes "dpms_was_enabled w = PyNone"
  shows "set_screensaver_windows False w =
     (if reg_key_access (opsys w) then (None, w\<lparr>trace := trace w @ [RegOpenKey]\<rparr>)
      else (None, w\<lparr>logged := logged w @
              [LogException ''access denied when trying to access screen saver settings in registry!''
                 (OSError ''OpenKey'')]\<rparr>))"
  using assms
  by (simp add: set_screensaver_windows_def reg_OpenKey_def set_screensaver_key_def
        logger_exception_def)

lemma macos_enable_none:
  assumes "dpms_was_enabled w = PyNone"
  shows "set_screensaver_macos h False w = (None, w)"
  using assms by (simp add: set_screensaver_macos_def)

text \<open>
  Claim C3, as the code has it. With nothing recorded (\<^verbatim>\<open>dpms_was_enabled\<close> is
  \<^verbatim>\<open>None\<close>), \<^verbatim>\<open>set_screensaver(False, window)\<close> returns normally and records nothing.
  On macOS, on Windows and on an unsupported system it makes no call that changes the
  operating system. On X11 it runs exactly one shell command,
  \<^verbatim>\<open>xdg-screensaver resume <xid>\<close>, and no \<^verbatim>\<open>xset\<close> command. On no platform is the DPMS
  setting changed, a process spawned or killed, or a registry value written.
\<close>

theorem enable_without_disable:
  assumes "dpms_was_enabled w = PyNone"
  shows "(let r = set_screensaver h False win w; w' = snd r in
      fst r = None
    \<and> dpms_was_enabled w' = PyNone
    \<and> filter mutating (trace w') =
        filter mutating (trace w) @
          (if \<not> IS_MAC_OS h \<and> IS_POSIX h
           then [OsSystem (''xdg-screensaver resume '' @ str_nat (get_xid win))] else [])
    \<and> dpms (opsys w') = dpms (opsys w)
    \<and> procs (opsys w') = procs (opsys w)
    \<and> reg_values (opsys w') = reg_values (opsys w)
    \<and> (IS_MAC_OS h \<or> \<not> IS_POSIX h \<longrightarrow> opsys w' = opsys w))"
proof -
  consider (mac) "IS_MAC_OS h"
    | (posix) "\<not> IS_MAC_OS h" "IS_POSIX h"
    | (win) "\<not> IS_MAC_OS h" "\<not> IS_POSIX h" "IS_WINDOWS h"
    | (other) "\<not> IS_MAC_OS h" "\<not> IS_POSIX h" "\<not> IS_WINDOWS h"
    by blast
  then show ?thesis
  proof cases
    case mac
    then show ?thesis
      using assms by (simp add: set_screensaver_def macos_enable_none)
  next
    case posix
    then show ?thesis
      using assms by (simp add: set_screensaver_def posix_enable Let_def)
  next
    case win
    then show ?thesis
      using assms by (simp add: set_screensaver_def windows_enable_none)
  next
    case other
    then show ?thesis
      using assms by (simp add: set_screensaver_def logger_warning_def)
  qed
qed

theorem enable_without_disable_witness:
  "dpms_was_enabled example_ss = PyNone
   \<and> trace (snd (set_screensaver example_windows False example_window example_ss)) = [RegOpenKey]
   \<and> opsys (snd (set_screensaver example_windows False example_window example_ss)) = example_os
   \<and> filter mutating (trace (snd (set_screensaver example_x11 False example_window example_ss)))
       = [OsSystem ''xdg-screensaver resume 7'']"
proof -
  have n: "dpms_was_enabled example_ss = PyNone" by (simp add: example_ss_def)
  have p: "\<not> IS_MAC_OS example_windows" "\<not> IS_POSIX example_windows"
    "\<not> IS_MAC_OS example_x11" "IS_POSIX example_x11"
    by (simp_all add: IS_MAC_OS_def IS_POSIX_def example_windows_def example_x11_def)
  have t: "trace (snd (set_screensaver example_windows False example_window example_ss)) = [RegOpenKey]"
    by code_simp
  have x: "''xdg-screensaver resume '' @ str_nat (get_xid example_window) = ''xdg-screensaver resume 7''"
    by code_simp
  from enable_without_disable [OF n, of example_windows example_window]
       enable_without_disable [OF n, of example_x11 example_window]
  show ?thesis using n p t x by (simp add: Let_def example_ss_def)
qed

theorem enable_without_disable_counterexample:
  "filter mutating (trace (snd (set_screensaver example_x11 False example_window example_ss)))
     = [OsSystem ''xdg-screensaver resume 7'']
   \<and> xss_suspended (opsys example_ss) = {''7''}
   \<and> xss_suspended (opsys (snd (set_screensaver example_x11 False example_window example_ss))) = {}
   \<and> dpms_was_enabled example_ss = PyNone"
  by code_simp

lemma windows_disable_observed:
  assumes "reg_key_access (opsys w)"
    and "reg_values (opsys w) ''ScreenSaveActive'' = Some (v, REG_SZ)"
  shows "set_screensaver_windows True w =
     (None, w\<lparr>dpms_was_enabled := PyBool (v = ''1''),
              opsys := (if v = ''1''
                        then (opsys w)\<lparr>reg_values := (reg_values (opsys w))(''ScreenSaveActive'' \<mapsto> (''0'', REG_SZ))\<rparr>
                        else opsys w),
              trace := trace w @ [RegOpenKey, RegQueryValueEx ''ScreenSaveActive'']
                        @ (if v = ''1'' then [RegSetValueEx ''ScreenSaveActive'' ''0''] else [])\<rparr>)"
  using assms
  by (simp add: set_screensaver_windows_def reg_OpenKey_def set_screensaver_key_def
        reg_QueryValueEx_def reg_SetValueEx_def Let_def)

lemma windows_enable_recorded:
  assumes "reg_key_access (opsys w)" and "dpms_was_enabled w = PyBool b"
  shows "set_screensaver_windows False w =
     (None, w\<lparr>opsys := (if b
                        then (opsys w)\<lparr>reg_values := (reg_values (opsys w))(''ScreenSaveActive'' \<mapsto> (''1'', REG_SZ))\<rparr>
                        else opsys w),
              trace := trace w @ [RegOpenKey]
                        @ (if b then [RegSetValueEx ''ScreenSaveActive'' ''1''] else [])\<rparr>)"
  using assms
  by (simp add: set_screensaver_windows_def reg_OpenKey_def set_screensaver_key_def
        reg_SetValueEx_def Let_def)

text \<open>
  Claim C4. On X11 and on Windows (where the registry value is read as a string),
  \<^verbatim>\<open>set_screensaver(True, window)\<close> records whether the setting it read was enabled,
  and \<^verbatim>\<open>set_screensaver(False, window)\<close> after it leaves the DPMS setting and the
  registry values as they were before the two calls. What the second call writes is the
  value the first one read: it writes \<^verbatim>\<open>ScreenSaveActive\<close> only with the value read, and
  runs \<^verbatim>\<open>xset +dpms\<close> only when DPMS was enabled.
\<close>

theorem disable_enable_restores:
  assumes "\<not> IS_MAC_OS h" and "IS_POSIX h \<or> IS_WINDOWS h"
    and "\<not> IS_POSIX h \<longrightarrow> reg_key_access (opsys w)
           \<and> (\<exists>v. reg_values (opsys w) ''ScreenSaveActive'' = Some (v, REG_SZ))"
  shows "(let r1 = set_screensaver h True win w; w1 = snd r1;
              r2 = set_screensaver h False win w1; w2 = snd r2 in
      fst r1 = None \<and> fst r2 = None
    \<and> dpms_was_enabled w1 =
        (if IS_POSIX h then PyBool (display_open (opsys w) \<and> dpms (opsys w))
         else PyBool (reg_values (opsys w) ''ScreenSaveActive'' = Some (''1'', REG_SZ)))
    \<and> dpms (opsys w2) = dpms (opsys w)
    \<and> reg_values (opsys w2) = reg_values (opsys w)
    \<and> (str_nat (get_xid win) \<notin> xss_suspended (opsys w) \<longrightarrow> opsys w2 = opsys w)
    \<and> (\<forall>name v. RegSetValueEx name v \<in> set (drop (length (trace w1)) (trace w2))
          \<longrightarrow> reg_values (opsys w) name = Some (v, REG_SZ))
    \<and> (OsSystem ''xset +dpms'' \<in> set (drop (length (trace w1)) (trace w2))
          \<longrightarrow> dpms (opsys w)))"
proof (cases "IS_POSIX h")
  case True
  show ?thesis
  proof (cases "display_open (opsys w)")
    case d: True
    show ?thesis
      using assms(1) True d
      by (cases "dpms (opsys w)") (simp_all add: set_screensaver_def posix_disable posix_enable Let_def)
  next
    case d: False
    show ?thesis
      using assms(1) True d
      by (simp add: set_screensaver_def posix_disable posix_enable Let_def)
  qed
next
  case False
  then have win: "IS_WINDOWS h" using assms(2) by simp
  from False assms(3) obtain v where acc: "reg_key_access (opsys w)"
    and v: "reg_values (opsys w) ''ScreenSaveActive'' = Some (v, REG_SZ)" by blast
  obtain w1 where d: "set_screensaver_windows True w = (None, w1)"
    and acc1: "reg_key_access (opsys w1)"
    and rec1: "dpms_was_enabled w1 = PyBool (v = ''1'')"
    and os1: "opsys w1 = (if v = ''1''
        then (opsys w)\<lparr>reg_values := (reg_values (opsys w))(''ScreenSaveActive'' \<mapsto> (''0'', REG_SZ))\<rparr>
        else opsys w)"
    using acc by (simp add: windows_disable_observed [OF acc v])
  have e: "set_screensaver_windows False w1 =
     (None, w1\<lparr>opsys := (if v = ''1''
                        then (opsys w1)\<lparr>reg_values := (reg_values (opsys w1))(''ScreenSaveActive'' \<mapsto> (''1'', REG_SZ))\<rparr>
                        else opsys w1),
              trace := trace w1 @ [RegOpenKey]
                        @ (if v = ''1'' then [RegSetValueEx ''ScreenSaveActive'' ''1''] else [])\<rparr>)"
    by (rule windows_enable_recorded [OF acc1 rec1])
  have restored: "opsys (snd (set_screensaver_windows False w1)) = opsys w"
  proof (cases "v = ''1''")
    case True
    have "(reg_values (opsys w))(''ScreenSaveActive'' \<mapsto> (''1'', REG_SZ)) = reg_values (opsys w)"
      using v True by (simp add: fun_upd_idem)
    then show ?thesis using True by (simp add: e os1)
  next
    case False
    then show ?thesis by (simp add: e os1)
  qed
  have written: "drop (length (trace w1)) (trace (snd (set_screensaver_windows False w1))) =
      (if v = ''1'' then [RegOpenKey, RegSetValueEx ''ScreenSaveActive'' ''1''] else [RegOpenKey])"
    by (simp add: e)
  have "fst (set_screensaver_windows False w1) = None" by (simp add: e)
  then show ?thesis
    using assms(1) False win v d rec1 restored written
    by (auto simp add: set_screensaver_def Let_def)
qed

theorem disable_enable_restores_witness:
  "\<not> IS_MAC_OS example_x11 \<and> IS_POSIX example_x11
   \<and> dpms (opsys (snd (set_screensaver example_x11 True example_window example_ss))) = False
   \<and> dpms (opsys (snd (set_screensaver example_x11 False example_window
                        (snd (set_screensaver example_x11 True example_window example_ss)))))
       = dpms (opsys example_ss)
   \<and> reg_values (opsys (snd (set_screensaver example_windows True example_window example_ss)))
        ''ScreenSaveActive'' = Some (''0'', REG_SZ)
   \<and> reg_values (opsys (snd (set_screensaver example_windows False example_window
                        (snd (set_screensaver example_windows True example_window example_ss)))))
       = reg_values (opsys example_ss)"
proof -
  have p: "\<not> IS_MAC_OS example_x11" "IS_POSIX example_x11 \<or> IS_WINDOWS example_x11"
    "\<not> IS_MAC_OS example_windows" "IS_POSIX example_windows \<or> IS_WINDOWS example_windows"
    "IS_POSIX example_x11"
    by (simp_all add: IS_MAC_OS_def IS_POSIX_def IS_WINDOWS_def example_windows_def example_x11_def)
  have r: "\<not> IS_POSIX example_windows \<longrightarrow> reg_key_access (opsys example_ss)
           \<and> (\<exists>v. reg_values (opsys example_ss) ''ScreenSaveActive'' = Some (v, REG_SZ))"
    by (simp add: example_ss_def example_os_def example_registry_def)
  have q: "\<not> IS_POSIX example_x11 \<longrightarrow> reg_key_access (opsys example_ss)
           \<and> (\<exists>v. reg_values (opsys example_ss) ''ScreenSaveActive'' = Some (v, REG_SZ))"
    using p by simp
  have d: "dpms (opsys (snd (set_screensaver example_x11 True example_window example_ss))) = False"
    "reg_values (opsys (snd (set_screensaver example_windows True example_window example_ss)))
        ''ScreenSaveActive'' = Some (''0'', REG_SZ)"
    by code_simp+
  from disable_enable_restores [OF p(1) p(2) q, of example_window]
       disable_enable_restores [OF p(3) p(4) r, of example_window]
  show ?thesis using p d by (simp add: Let_def)
qed

subsection \<open>FileWatcher\<close>

lemma schedules_same_watch: "same_watch v w \<Longrightarrow> schedules v a = schedules w a"
  by (cases a) (auto simp: same_watch_def)

lemma perform_schedules:
  "schedules w a = Some (cb, args) \<Longrightarrow> perform a w = enqueue cb args w"
  by (cases a)
     (auto simp: dispatch_modified_def monitor_on_modified_def split: if_splits option.splits)

lemma main_loop_quiet:
  "quiet w \<Longrightarrow> main_loop_until t w = w\<lparr>glib_clock := max t (glib_clock w)\<rparr>"
  by (simp add: quiet_def main_loop_until_def)

lemma main_loop_armed_early:
  "armed due c w \<Longrightarrow> t < due \<Longrightarrow> main_loop_until t w = w\<lparr>glib_clock := max t (glib_clock w)\<rparr>"
  by (auto simp add: armed_def main_loop_until_def Let_def)

lemma main_loop_armed_due:
  assumes "armed due c w" "due \<le> t"
  shows "invoked (main_loop_until t w) = invoked w @ [c]"
    and "quiet (main_loop_until t w)"
  using assms by (simp_all add: armed_def main_loop_until_def call_def quiet_def)

lemma enqueue_quiet:
  assumes "quiet w"
  shows "armed (glib_clock w + 200) (cb, args) (enqueue cb args w)"
    and "invoked (enqueue cb args w) = invoked w"
    and "glib_clock (enqueue cb args w) = glib_clock w"
    and "same_watch (enqueue cb args w) w"
  using assms
  by (simp_all add: quiet_def armed_def enqueue_def GLib_timeout_add_def same_watch_def)

lemma enqueue_armed:
  assumes "armed due c w"
  shows "armed (glib_clock w + 200) (cb, args) (enqueue cb args w)"
    and "invoked (enqueue cb args w) = invoked w"
    and "glib_clock (enqueue cb args w) = glib_clock w"
    and "same_watch (enqueue cb args w) w"
  using assms
  by (simp_all add: armed_def enqueue_def GLib_timeout_add_def GLib_Source_remove_def same_watch_def)

lemma step_rearms:
  assumes pend: "quiet w \<or> (\<exists>due c. armed due c w \<and> t < due)"
    and clk: "glib_clock w \<le> t"
    and sch: "schedules w a = Some c'"
  shows "armed (t + 200) c' (perform a (main_loop_until t w))"
    and "invoked (perform a (main_loop_until t w)) = invoked w"
    and "glib_clock (perform a (main_loop_until t w)) = t"
    and "same_watch (perform a (main_loop_until t w)) w"
proof -
  let ?v = "w\<lparr>glib_clock := max t (glib_clock w)\<rparr>"
  obtain cb args where c': "c' = (cb, args)" by (cases c')
  have ml: "main_loop_until t w = ?v"
    using pend main_loop_quiet main_loop_armed_early by blast
  have sw: "same_watch ?v w" by (simp add: same_watch_def)
  have "schedules ?v a = Some (cb, args)"
    using schedules_same_watch [OF sw] sch c' by simp
  then have pf: "perform a ?v = enqueue cb args ?v" by (rule perform_schedules)
  have clk': "glib_clock ?v = t" using clk by simp
  have pend': "quiet ?v \<or> (\<exists>due c. armed due c ?v)"
    using pend clk by (auto simp: quiet_def armed_def)
  have all: "armed (t + 200) c' (enqueue cb args ?v) \<and> invoked (enqueue cb args ?v) = invoked w
      \<and> glib_clock (enqueue cb args ?v) = t \<and> same_watch (enqueue cb args ?v) w"
  proof -
    from pend' show ?thesis
    proof
      assume q: "quiet ?v"
      from enqueue_quiet [OF q, of cb args] clk' c' sw show ?thesis
        by (simp add: same_watch_def)
    next
      assume "\<exists>due c. armed due c ?v"
      then obtain due c where a: "armed due c ?v" by blast
      from enqueue_armed [OF a, of cb args] clk' c' sw show ?thesis
        by (simp add: same_watch_def)
    qed
  qed
  show "armed (t + 200) c' (perform a (main_loop_until t w))" using all ml pf by simp
  show "invoked (perform a (main_loop_until t w)) = invoked w" using all ml pf by simp
  show "glib_clock (perform a (main_loop_until t w)) = t" using all ml pf by simp
  show "same_watch (perform a (main_loop_until t w)) w" using all ml pf by simp
qed

lemma run_rearms:
  assumes "evs \<noteq> []"
    and "\<forall>e \<in> set evs. schedules w (snd e) \<noteq> None"
    and "glib_clock w \<le> fst (hd evs)"
    and "within_window (map fst evs)"
    and "quiet w \<or> (\<exists>due c. armed due c w \<and> fst (hd evs) < due)"
  shows "armed (fst (last evs) + 200) (the (schedules w (snd (last evs)))) (run evs w)
       \<and> invoked (run evs w) = invoked w \<and> glib_clock (run evs w) = fst (last evs)"
  using assms
proof (induction evs arbitrary: w)
  case Nil
  then show ?case by simp
next
  case (Cons e evs)
  obtain t a where e: "e = (t, a)" by (cases e)
  obtain c' where sch: "schedules w a = Some c'" using Cons.prems(2) e by auto
  let ?v = "perform a (main_loop_until t w)"
  have pend: "quiet w \<or> (\<exists>due c. armed due c w \<and> t < due)" using Cons.prems(5) e by simp
  have clk: "glib_clock w \<le> t" using Cons.prems(3) e by simp
  note st = step_rearms [OF pend clk sch]
  show ?case
  proof (cases evs)
    case Nil
    then show ?thesis using st e sch by simp
  next
    case (Cons e' evs')
    obtain t' a' where e': "e' = (t', a')" by (cases e')
    have win: "t \<le> t'" "t' < t + 200" "within_window (map fst evs)"
      using Cons.prems(4) e e' Cons by auto
    have sw: "\<And>b. schedules ?v b = schedules w b"
      using schedules_same_watch [OF st(4)] by simp
    have "armed (fst (last evs) + 200) (the (schedules ?v (snd (last evs)))) (run evs ?v)
       \<and> invoked (run evs ?v) = invoked ?v \<and> glib_clock (run evs ?v) = fst (last evs)"
    proof (rule Cons.IH)
      show "evs \<noteq> []" using Cons by simp
      show "\<forall>e \<in> set evs. schedules ?v (snd e) \<noteq> None" using Cons.prems(2) sw by simp
      show "glib_clock ?v \<le> fst (hd evs)" using st(3) win Cons e' by simp
      show "within_window (map fst evs)" by (rule win)
      show "quiet ?v \<or> (\<exists>due c. armed due c ?v \<and> fst (hd evs) < due)"
      proof -
        have "armed (t + 200) c' ?v \<and> fst (hd evs) < t + 200"
          using st(1) win Cons e' by simp
        then show ?thesis by blast
      qed
    qed
    then show ?thesis using sw st(2) e Cons by simp
  qed
qed

text \<open>
  Claim C1. Start with no timer pending, and let one or more events arrive, each either
  a modification of the watched path or a direct call of \<^verbatim>\<open>enqueue\<close>, each before the
  200 ms timer armed by the one before has expired. Then the callback is not called
  before 200 ms have passed since the last event, and from then on it has been called
  exactly once, with the callback and arguments bound by the last call of
  \<^verbatim>\<open>enqueue\<close>; after that call no timer is pending.
\<close>

theorem debounce_single_call:
  assumes "timeout w = 0" and "glib_sources w = []"
    and "evs \<noteq> []"
    and "\<forall>e \<in> set evs. schedules w (snd e) \<noteq> None"
    and "glib_clock w \<le> fst (hd evs)"
    and "within_window (map fst evs)"
  shows "invoked (main_loop_until T (run evs w)) =
           (if T < fst (last evs) + 200 then invoked w
            else invoked w @ [the (schedules w (snd (last evs)))])
       \<and> (fst (last evs) + 200 \<le> T \<longrightarrow>
            timeout (main_loop_until T (run evs w)) = 0
          \<and> glib_sources (main_loop_until T (run evs w)) = [])"
proof -
  have q: "quiet w" using assms(1,2) by (simp add: quiet_def)
  let ?c = "the (schedules w (snd (last evs)))"
  let ?due = "fst (last evs) + 200"
  have r: "armed ?due ?c (run evs w)" "invoked (run evs w) = invoked w"
    using run_rearms [OF assms(3,4,5,6)] q by auto
  show ?thesis
  proof (cases "T < ?due")
    case True
    then show ?thesis using main_loop_armed_early [OF r(1) True] r(2) by simp
  next
    case False
    then have "?due \<le> T" by simp
    from main_loop_armed_due [OF r(1) this] r(2) False show ?thesis
      by (simp add: quiet_def)
  qed
qed

theorem debounce_single_call_witness:
  "timeout example_watcher = 0 \<and> glib_sources example_watcher = []
   \<and> within_window [0, 50, 120]
   \<and> invoked (main_loop_until 319
        (run [(0, Modified ''/tmp'' ''/tmp/doc.pdf''), (50, Modified ''/tmp'' ''/tmp/doc.pdf''),
              (120, Enqueue ''reload'' [''other''])] example_watcher)) = []
   \<and> invoked (main_loop_until 320
        (run [(0, Modified ''/tmp'' ''/tmp/doc.pdf''), (50, Modified ''/tmp'' ''/tmp/doc.pdf''),
              (120, Enqueue ''reload'' [''other''])] example_watcher)) = [(''reload'', [''other''])]"
proof -
  let ?evs = "[(0, Modified ''/tmp'' ''/tmp/doc.pdf''), (50, Modified ''/tmp'' ''/tmp/doc.pdf''),
              (120, Enqueue ''reload'' [''other''])]"
  have h1: "timeout example_watcher = 0" by code_simp
  have h2: "glib_sources example_watcher = []" by code_simp
  have h3: "?evs \<noteq> []" by simp
  have s: "schedules example_watcher (Modified ''/tmp'' ''/tmp/doc.pdf'') = Some (''reload'', [''doc''])"
    by code_simp
  have h4: "\<forall>e \<in> set ?evs. schedules example_watcher (snd e) \<noteq> None"
    using s by simp
  have h5: "glib_clock example_watcher \<le> fst (hd ?evs)" by code_simp
  have h6: "within_window (map fst ?evs)" by simp
  have i: "invoked example_watcher = []" by code_simp
  from debounce_single_call [OF h1 h2 h3 h4 h5 h6, of 319]
       debounce_single_call [OF h1 h2 h3 h4 h5 h6, of 320]
  show ?thesis using h1 h2 i by simp
qed

lemma foldl_call_same_watch:
  "same_watch (foldl (\<lambda>v s. call (f s) (g s) v) w ss) w"
proof (induction ss arbitrary: w)
  case Nil
  show ?case by (simp add: same_watch_def)
next
  case (Cons s ss)
  have "same_watch (call (f s) (g s) w) w" by (simp add: call_def same_watch_def)
  with Cons [of "call (f s) (g s) w"] show ?case by (simp add: same_watch_def)
qed

lemma main_loop_same_watch: "same_watch (main_loop_until t w) w"
proof -
  have "same_watch (foldl (\<lambda>v s. call (fst (snd (snd s))) (snd (snd (snd s))) v)
           (w\<lparr>glib_clock := max t (glib_clock w)\<rparr>) ss) (w\<lparr>glib_clock := max t (glib_clock w)\<rparr>)" for ss
    by (rule foldl_call_same_watch)
  then show ?thesis by (simp add: main_loop_until_def Let_def same_watch_def)
qed

lemma perform_ignored: "schedules w (Modified d p) = None \<Longrightarrow> perform (Modified d p) w = w"
  by (auto simp: dispatch_modified_def monitor_on_modified_def split: if_splits option.splits)

lemma run_ignored:
  assumes "\<forall>e \<in> set evs. \<exists>d p. snd e = Modified d p \<and> schedules w (snd e) = None"
  shows "run evs w = idle (map fst evs) w"
  using assms
proof (induction evs arbitrary: w)
  case Nil
  show ?case by simp
next
  case (Cons e evs)
  obtain t a where e: "e = (t, a)" by (cases e)
  obtain d p where a: "a = Modified d p" "schedules w a = None"
    using Cons.prems e by auto
  let ?v = "main_loop_until t w"
  have sw: "\<And>b. schedules ?v b = schedules w b"
    using schedules_same_watch [OF main_loop_same_watch] by blast
  have "perform a ?v = ?v" using a sw perform_ignored by metis
  moreover have "run evs ?v = idle (map fst evs) ?v"
    using Cons.prems sw by (intro Cons.IH) simp
  ultimately show ?case using e by simp
qed

lemma idle_quiet: "quiet w \<Longrightarrow> invoked (idle ts w) = invoked w \<and> quiet (idle ts w)"
proof (induction ts arbitrary: w)
  case Nil
  then show ?case by simp
next
  case (Cons t ts)
  have "quiet (main_loop_until t w)" "invoked (main_loop_until t w) = invoked w"
    using Cons.prems by (simp_all add: main_loop_quiet quiet_def)
  with Cons.IH [of "main_loop_until t w"] show ?case by simp
qed

text \<open>
  Claim C5. After \<^verbatim>\<open>stop_watching\<close>, file modification events, on whatever path and
  from whatever watch, change nothing: the watcher goes through the same states as if
  only the time had passed. With no timer pending when the watch was removed, no
  callback is invoked at all.
\<close>

theorem stop_watching_ignores_modifications:
  assumes "\<forall>e \<in> set evs. \<exists>d p. snd e = Modified d p"
  shows "run evs (stop_watching w) = idle (map fst evs) (stop_watching w)
       \<and> (timeout w = 0 \<and> glib_sources w = [] \<longrightarrow>
            invoked (run evs (stop_watching w)) = invoked w)"
proof -
  have "\<forall>e \<in> set evs. \<exists>d p. snd e = Modified d p \<and> schedules (stop_watching w) (snd e) = None"
    using assms by (auto simp: stop_watching_def)
  then have r: "run evs (stop_watching w) = idle (map fst evs) (stop_watching w)"
    by (rule run_ignored)
  have "invoked (idle (map fst evs) (stop_watching w)) = invoked w"
    if "timeout w = 0" "glib_sources w = []"
  proof -
    have "quiet (stop_watching w)" using that by (simp add: quiet_def stop_watching_def)
    from idle_quiet [OF this] show ?thesis by (simp add: stop_watching_def)
  qed
  with r show ?thesis by simp
qed

theorem stop_watching_ignores_modifications_witness:
  "invoked (run [(10, Modified ''/tmp'' ''/tmp/doc.pdf''), (500, Modified ''/tmp'' ''/tmp/doc.pdf'')]
              (stop_watching example_watcher)) = []"
proof -
  have e: "\<forall>e \<in> set [(10::nat, Modified ''/tmp'' ''/tmp/doc.pdf'' :: (string, string list) action),
                        (500, Modified ''/tmp'' ''/tmp/doc.pdf'')].
             \<exists>d p. snd e = Modified d p" by simp
  have q: "timeout example_watcher = 0 \<and> glib_sources example_watcher = []" by code_simp
  have i: "invoked example_watcher = []" by code_simp
  from stop_watching_ignores_modifications [OF e, of example_watcher]
  have "timeout example_watcher = 0 \<and> glib_sources example_watcher = [] \<longrightarrow>
      invoked (run [(10, Modified ''/tmp'' ''/tmp/doc.pdf''), (500, Modified ''/tmp'' ''/tmp/doc.pdf'')]
              (stop_watching example_watcher)) = invoked example_watcher"
    by (rule conjunct2)
  with q i show ?thesis by (simp del: run.simps)
qed

lemma watch_file_state:
  "snd (watch_file path cb args w) =
     (if fs_schedulable w (dirname path)
      then w\<lparr>observer_alive := True,
             observer_starts := observer_starts w + (if observer_alive w then 0 else 1),
             observer_watches := [dirname path],
             on_modified := Some (path, cb, args)\<rparr>
      else w\<lparr>observer_alive := True,
             observer_starts := observer_starts w + (if observer_alive w then 0 else 1),
             observer_watches := [],
             on_modified := Some (path, cb, args),
             stdout := stdout w @ [''Impossible to open dir at '' @ dirname path]\<rparr>)"
  and watch_file_returns: "fst (watch_file path cb args w) = None"
  by (simp_all add: watch_file_def start_daemon_def stop_watching_def observer_schedule_def Let_def)




text \<open>
  Claim C6. When the directory of the path cannot be scheduled, \<^verbatim>\<open>watch_file\<close> returns
  without an exception and leaves no watch; the failure is written to the standard
  output by \<^verbatim>\<open>print\<close>, and nothing is written to the logger.
\<close>

theorem watch_file_failure_is_printed:
  assumes "\<not> fs_schedulable w (dirname path)"
  shows "fst (watch_file path cb args w) = None
       \<and> observer_watches (snd (watch_file path cb args w)) = []
       \<and> stdout (snd (watch_file path cb args w)) =
           stdout w @ [''Impossible to open dir at '' @ dirname path]
       \<and> wlogged (snd (watch_file path cb args w)) = wlogged w"
  using assms by (simp add: watch_file_state watch_file_returns)

theorem watch_file_failure_is_printed_witness:
  "\<not> fs_schedulable (initial_watcher none_schedulable :: (string, string list) watcher)
       (dirname ''/nonexistent/doc.pdf'')
   \<and> stdout (snd (watch_file ''/nonexistent/doc.pdf'' ''reload'' [''doc'']
       (initial_watcher none_schedulable))) = [''Impossible to open dir at /nonexistent'']
   \<and> wlogged (snd (watch_file ''/nonexistent/doc.pdf'' ''reload'' [''doc'']
       (initial_watcher none_schedulable))) = []
   \<and> observer_watches (snd (watch_file ''/nonexistent/doc.pdf'' ''reload'' [''doc'']
       (initial_watcher none_schedulable))) = []"
proof -
  have h: "\<not> fs_schedulable (initial_watcher none_schedulable :: (string, string list) watcher)
       (dirname ''/nonexistent/doc.pdf'')"
    by (simp add: initial_watcher_def none_schedulable_def)
  have d: "dirname ''/nonexistent/doc.pdf'' = ''/nonexistent''" by code_simp
  from watch_file_failure_is_printed [OF h, of "''reload''" "[''doc'']"]
  show ?thesis using h d by (simp add: initial_watcher_def)
qed

text \<open>
  Claim C2, as the code has it. With a debounce timer pending, \<^verbatim>\<open>stop_watching\<close> and
  \<^verbatim>\<open>watch_file\<close> on another path leave \<^verbatim>\<open>cls.timeout\<close> and the pending source as they
  are: the timer is not cancelled, and when it is due its callback is called once. What
  stops is the arming of new timers: modifications of the old path after the call change
  nothing.
\<close>

theorem pending_timer_survives:
  assumes "armed due c w" and "P2 \<noteq> P1"
    and "w' = stop_watching w \<or> w' = snd (watch_file P2 cb2 args2 w)"
    and "\<forall>e \<in> set evs. \<exists>d. snd e = Modified d P1"
  shows "timeout w' = timeout w \<and> glib_sources w' = glib_sources w \<and> glib_sources w' \<noteq> []
       \<and> invoked (main_loop_until T w') =
           (if T < due then invoked w else invoked w @ [c])
       \<and> run evs w' = idle (map fst evs) w'"
proof -
  have same: "timeout w' = timeout w" "glib_sources w' = glib_sources w"
      "glib_clock w' = glib_clock w" "invoked w' = invoked w"
    using assms(3) by (auto simp: stop_watching_def watch_file_state)
  then have a: "armed due c w'" using assms(1) by (simp add: armed_def)
  have ign: "\<forall>e \<in> set evs. \<exists>d p. snd e = Modified d p \<and> schedules w' (snd e) = None"
  proof
    fix e assume "e \<in> set evs"
    then obtain d where d: "snd e = Modified d P1" using assms(4) by blast
    have "schedules w' (Modified d P1) = None"
      using assms(2,3) by (auto simp: stop_watching_def watch_file_state)
    with d show "\<exists>d p. snd e = Modified d p \<and> schedules w' (snd e) = None" by simp
  qed
  have inv: "invoked (main_loop_until T w') = (if T < due then invoked w else invoked w @ [c])"
  proof (cases "T < due")
    case True
    then show ?thesis using main_loop_armed_early [OF a True] same by simp
  next
    case False
    then have "due \<le> T" by simp
    from main_loop_armed_due(1) [OF a this] same False show ?thesis by simp
  qed
  show ?thesis using same a inv run_ignored [OF ign] by (simp add: armed_def)
qed

theorem pending_timer_survives_witness:
  "armed 210 (''reload'', [''doc'']) (run [(10, Modified ''/tmp'' ''/tmp/doc.pdf'')] example_watcher)
   \<and> invoked (main_loop_until 300 (stop_watching
        (run [(10, Modified ''/tmp'' ''/tmp/doc.pdf'')] example_watcher))) = [(''reload'', [''doc''])]
   \<and> run [(60, Modified ''/tmp'' ''/tmp/doc.pdf'')]
        (snd (watch_file ''/tmp/other.pdf'' ''reload'' [''other'']
           (run [(10, Modified ''/tmp'' ''/tmp/doc.pdf'')] example_watcher)))
     = idle [60] (snd (watch_file ''/tmp/other.pdf'' ''reload'' [''other'']
           (run [(10, Modified ''/tmp'' ''/tmp/doc.pdf'')] example_watcher)))"
proof -
  let ?w = "run [(10, Modified ''/tmp'' ''/tmp/doc.pdf'')] example_watcher"
  have a: "armed 210 (''reload'', [''doc'']) ?w" by code_simp
  have i: "invoked ?w = []" by code_simp
  have n: "''/tmp/other.pdf'' \<noteq> ''/tmp/doc.pdf''" by simp
  have e: "\<forall>e \<in> set [(60::nat, Modified ''/tmp'' ''/tmp/doc.pdf'' :: (string, string list) action)].
             \<exists>d. snd e = Modified d ''/tmp/doc.pdf''" by simp
  from pending_timer_survives [OF a n disjI1 [OF refl] e, of 300]
       pending_timer_survives [OF a n disjI2 [OF refl] e, of "''reload''" "[''other'']" 300]
  show ?thesis using a i by simp
qed

theorem stop_watching_keeps_timer_counterexample:
  "glib_sources (run [(10, Modified ''/tmp'' ''/tmp/doc.pdf''), (50, StopWatching)] example_watcher)
     = [(1, 210, ''reload'', [''doc''])]
   \<and> invoked (main_loop_until 300
        (run [(10, Modified ''/tmp'' ''/tmp/doc.pdf''), (50, StopWatching)] example_watcher))
     = [(''reload'', [''doc''])]
   \<and> glib_sources (run [(10, Modified ''/tmp'' ''/tmp/doc.pdf''),
                         (50, WatchFile ''/tmp/other.pdf'' ''reload'' [''other''])] example_watcher)
     = [(1, 210, ''reload'', [''doc''])]
   \<and> invoked (main_loop_until 300
        (run [(10, Modified ''/tmp'' ''/tmp/doc.pdf''),
              (50, WatchFile ''/tmp/other.pdf'' ''reload'' [''other''])] example_watcher))
     = [(''reload'', [''doc''])]"
  by code_simp

end
